theory Spec2Isabelle
  imports Main "HOL-Library.Word"
begin

unbundle bit_operations_syntax

section \<open>Machine types\<close>

type_synonym u8 = "8 word"
type_synonym u16 = "16 word"
type_synonym u32 = "32 word"
type_synonym u64 = "64 word"

text \<open>
  \<^verbatim>\<open>ip6_address_t\<close> is read by the node only through \<^verbatim>\<open>as_u64[0]\<close> and
  \<^verbatim>\<open>as_u64[1]\<close>: an address is the pair of these two 64-bit halves.
\<close>

type_synonym ip6_address = "u64 \<times> u64"

section \<open>Collaborators of the node\<close>

text \<open>
  The enum \<^verbatim>\<open>nat66_in2out_next_t\<close> (without its count \<^verbatim>\<open>NAT66_IN2OUT_N_NEXT\<close>) and
  the enum generated by \<^verbatim>\<open>foreach_nat66_in2out_error\<close>.
\<close>

datatype nat66_in2out_next = NAT66_IN2OUT_NEXT_IP6_LOOKUP | NAT66_IN2OUT_NEXT_DROP

datatype nat66_in2out_error =
  NAT66_IN2OUT_ERROR_IN2OUT_PACKETS | NAT66_IN2OUT_ERROR_NO_TRANSLATION | NAT66_IN2OUT_ERROR_UNKNOWN

text \<open>
  Every call the node makes to the routing table, to the static-mapping table and to
  the two counter services is recorded, in call order, with its arguments.
\<close>

datatype call =
  Fib_table_lookup u32 ip6_address
  | Nat66_static_mapping_get ip6_address u32
  | Vlib_increment_combined_counter u32 u32 u64 u64
  | Vlib_node_increment_counter u32 nat66_in2out_error u64

text \<open>
  \<^verbatim>\<open>snat_interface_t\<close>, as far as the node reads it. Whether an entry has the outside
  role is decided by the macro \<^verbatim>\<open>nat_interface_is_outside\<close>, which is not part of
  this file and is a parameter of the model.
\<close>

record snat_interface =
  sw_if_index :: u32
  flags :: u8

text \<open>
  Modelled from the spec: the declaration of \<^verbatim>\<open>nat66_static_mapping_t\<close> (nat66.h) is
  missing; section 3 gives a mapping an inside address, an outside address and an
  owning FIB. The node reads \<^verbatim>\<open>e_addr\<close> only.
\<close>

record nat66_static_mapping =
  l_addr :: ip6_address
  e_addr :: ip6_address
  fib_index :: u32

text \<open>
  \<^verbatim>\<open>vlib_buffer_t\<close>, as far as the node uses it. \<open>data\<close> is the memory seen from
  \<^verbatim>\<open>vlib_buffer_get_current (b0)\<close>, one byte per offset; \<open>sw_if_index_rx\<close> is
  \<^verbatim>\<open>vnet_buffer (b0)->sw_if_index[VLIB_RX]\<close>; \<open>is_traced\<close> is the flag
  \<^verbatim>\<open>VLIB_BUFFER_IS_TRACED\<close>.
\<close>

record vlib_buffer =
  data :: "nat \<Rightarrow> u8"
  current_length :: u32
  sw_if_index_rx :: u32
  error :: u32
  is_traced :: bool

record nat66_in2out_trace =
  t_sw_if_index :: u32
  t_next_index :: nat66_in2out_next

text \<open>
  What the node reads and does not change: the fields of \<^verbatim>\<open>nat66_main\<close> it uses
  (\<open>outside_fib_index\<close>, \<open>interfaces\<close> in pool order, \<open>in2out_node_index\<close>), the
  thread and node runtime (\<open>thread_index\<close>, \<open>node_trace\<close> for
  \<^verbatim>\<open>node->flags & VLIB_NODE_FLAG_TRACE\<close>, \<open>node_errors\<close> for \<^verbatim>\<open>node->errors\<close>), and
  the external services as functions. \<open>ip6_parse\<close> gives \<open>None\<close> where the C function
  returns non-zero, and otherwise the three values it writes through its pointers
  (\<^verbatim>\<open>l4_protocol\<close>, \<^verbatim>\<open>l4_offset\<close>, \<^verbatim>\<open>frag_offset\<close>). \<open>nat66_static_mapping_get\<close> gives
  \<open>None\<close> for a null pointer, and otherwise the pool index \<^verbatim>\<open>sm0 - nm->sm\<close> of the
  entry together with the entry.
\<close>

record env =
  fib_table_lookup :: "u32 \<Rightarrow> ip6_address \<Rightarrow> u32"
  fib_entry_get_resolving_interface :: "u32 \<Rightarrow> u32"
  fib_table_get_index_for_sw_if_index :: "u32 \<Rightarrow> u32"
  nat_interface_is_outside :: "snat_interface \<Rightarrow> bool"
  nat66_static_mapping_get :: "ip6_address \<Rightarrow> u32 \<Rightarrow> (u32 \<times> nat66_static_mapping) option"
  ip6_parse :: "(nat \<Rightarrow> u8) \<Rightarrow> u32 \<Rightarrow> (u8 \<times> u16 \<times> u16) option"
  vlib_buffer_length_in_chain :: "vlib_buffer \<Rightarrow> u64"
  outside_fib_index :: u32
  interfaces :: "snat_interface list"
  in2out_node_index :: u32
  thread_index :: u32
  node_trace :: bool
  node_errors :: "nat66_in2out_error \<Rightarrow> u32"

text \<open>
  Modelled from the spec: the macro \<^verbatim>\<open>FIB_NODE_INDEX_INVALID\<close> (fib_types.h) is missing;
  it is the "no route" answer of the FIB lookup, the all-ones index, like the
  \<^verbatim>\<open>~0\<close> the classifier compares the interface with.
\<close>

definition FIB_NODE_INDEX_INVALID :: u32 where
  "FIB_NODE_INDEX_INVALID = NOT 0"

section \<open>The eligibility classifier\<close>

text \<open>
  The \<^verbatim>\<open>pool_foreach\<close> of \<^verbatim>\<open>nat66_not_translate\<close>: the first registered interface
  that has the outside role and the resolved index returns 0; the end of the pool
  falls through to \<^verbatim>\<open>return 1\<close>.
\<close>

fun nat66_not_translate_scan :: "(snat_interface \<Rightarrow> bool) \<Rightarrow> u32 \<Rightarrow> snat_interface list \<Rightarrow> u8" where
  "nat66_not_translate_scan is_out sw [] = 1"
| "nat66_not_translate_scan is_out sw (i # rest) =
     (if is_out i \<and> sw = sw_if_index i then 0
      else nat66_not_translate_scan is_out sw rest)"

definition nat66_not_translate :: "env \<Rightarrow> u32 \<Rightarrow> ip6_address \<Rightarrow> u8 \<times> call list" where
  "nat66_not_translate nm rx_fib_index ip6_addr =
     (let fei = fib_table_lookup nm rx_fib_index ip6_addr;
          calls = [Fib_table_lookup rx_fib_index ip6_addr]
      in if FIB_NODE_INDEX_INVALID = fei then (1, calls)
         else
           let sw = fib_entry_get_resolving_interface nm fei
           in if sw = NOT 0 then
                let fei' = fib_table_lookup nm (outside_fib_index nm) ip6_addr;
                    calls' = calls @ [Fib_table_lookup (outside_fib_index nm) ip6_addr]
                in if FIB_NODE_INDEX_INVALID = fei' then (1, calls')
                   else (nat66_not_translate_scan (nat_interface_is_outside nm)
                           (fib_entry_get_resolving_interface nm fei') (interfaces nm), calls')
              else (nat66_not_translate_scan (nat_interface_is_outside nm) sw (interfaces nm), calls))"

section \<open>Packet memory\<close>

text \<open>
  The node reads and writes the packet through \<^verbatim>\<open>u64\<close> and \<^verbatim>\<open>u16\<close> lvalues. On the
  little-endian hosts the code is built for, an n-byte value at address \<open>a\<close> has its
  least significant byte at \<open>a\<close>.
\<close>

fun load_le :: "(nat \<Rightarrow> u8) \<Rightarrow> nat \<Rightarrow> nat \<Rightarrow> 'a::len word" where
  "load_le m a 0 = 0"
| "load_le m a (Suc n) = ucast (m a) OR push_bit 8 (load_le m (Suc a) n)"

fun store_le :: "(nat \<Rightarrow> u8) \<Rightarrow> nat \<Rightarrow> nat \<Rightarrow> 'a::len word \<Rightarrow> (nat \<Rightarrow> u8)" where
  "store_le m a 0 v = m"
| "store_le m a (Suc n) v = store_le (m(a := ucast v)) (Suc a) n (drop_bit 8 v)"

definition load_u16 :: "(nat \<Rightarrow> u8) \<Rightarrow> nat \<Rightarrow> u16" where
  "load_u16 m a = load_le m a 2"

definition load_u64 :: "(nat \<Rightarrow> u8) \<Rightarrow> nat \<Rightarrow> u64" where
  "load_u64 m a = load_le m a 8"

definition store_u16 :: "(nat \<Rightarrow> u8) \<Rightarrow> nat \<Rightarrow> u16 \<Rightarrow> (nat \<Rightarrow> u8)" where
  "store_u16 m a v = store_le m a 2 v"

definition store_u64 :: "(nat \<Rightarrow> u8) \<Rightarrow> nat \<Rightarrow> u64 \<Rightarrow> (nat \<Rightarrow> u8)" where
  "store_u64 m a v = store_le m a 8 v"

text \<open>
  Modelled from the spec: the declarations of \<^verbatim>\<open>ip6_header_t\<close>, \<^verbatim>\<open>udp_header_t\<close>,
  \<^verbatim>\<open>tcp_header_t\<close> and \<^verbatim>\<open>icmp46_header_t\<close> and the \<^verbatim>\<open>IP_PROTOCOL_\<close> constants are
  missing. The spec's packet is "wire-format bytes representing one IPv6 datagram":
  the source address is bytes 8 to 23 of the IPv6 header and the destination address
  bytes 24 to 39; the checksum is at byte 6 of a UDP header, byte 16 of a TCP header
  and byte 2 of an ICMPv6 header; the protocol numbers are 17, 6 and 58.
\<close>

definition src_address_offset :: nat where "src_address_offset = 8"
definition dst_address_offset :: nat where "dst_address_offset = 24"
definition udp_checksum_offset :: nat where "udp_checksum_offset = 6"
definition tcp_checksum_offset :: nat where "tcp_checksum_offset = 16"
definition icmp_checksum_offset :: nat where "icmp_checksum_offset = 2"

definition IP_PROTOCOL_UDP :: u8 where "IP_PROTOCOL_UDP = 17"
definition IP_PROTOCOL_TCP :: u8 where "IP_PROTOCOL_TCP = 6"
definition IP_PROTOCOL_ICMP6 :: u8 where "IP_PROTOCOL_ICMP6 = 58"

definition load_address :: "(nat \<Rightarrow> u8) \<Rightarrow> nat \<Rightarrow> ip6_address" where
  "load_address m a = (load_u64 m a, load_u64 m (a + 8))"

definition store_address :: "(nat \<Rightarrow> u8) \<Rightarrow> nat \<Rightarrow> ip6_address \<Rightarrow> (nat \<Rightarrow> u8)" where
  "store_address m a x = store_u64 (store_u64 m a (fst x)) (a + 8) (snd x)"

section \<open>The checksum adjuster\<close>

text \<open>
  Modelled from the spec: \<^verbatim>\<open>ip_csum_t\<close>, \<^verbatim>\<open>ip_csum_with_carry\<close>, \<^verbatim>\<open>ip_csum_sub_even\<close>,
  \<^verbatim>\<open>ip_csum_add_even\<close> and \<^verbatim>\<open>ip_csum_fold\<close> (ip_packet.h) are missing. Section 4.1: the
  accumulator is the one's-complement checksum over words wider than 16 bits with carry
  folding (the 64-bit \<^verbatim>\<open>uword\<close>); the old address's halves are subtracted from the
  checksummed data and the new address's halves added to it, on words at even
  alignment; the end-around carries are then folded back into 16 bits. The checksum
  field holds the complement of the sum of the data, so taking \<open>x\<close> out of the data
  is an addition of \<open>x\<close> to the field with end-around carry, and putting \<open>x\<close> into the
  data is a subtraction of \<open>x\<close> from the field with end-around borrow.
\<close>

definition ip_csum_with_carry :: "u64 \<Rightarrow> u64 \<Rightarrow> u64" where
  "ip_csum_with_carry s x = (let t = s + x in t + (if t < x then 1 else 0))"

definition ip_csum_sub_even :: "u64 \<Rightarrow> u64 \<Rightarrow> u64" where
  "ip_csum_sub_even c x = ip_csum_with_carry c x"

definition ip_csum_add_even :: "u64 \<Rightarrow> u64 \<Rightarrow> u64" where
  "ip_csum_add_even c x = (let d = c - x in d - (if d > c then 1 else 0))"

definition ip_csum_fold :: "u64 \<Rightarrow> u16" where
  "ip_csum_fold c =
     (let c1 = (c AND 0xffffffff) + drop_bit 32 c;
          c2 = (c1 AND 0xffff) + drop_bit 16 c1;
          c3 = (c2 AND 0xffff) + drop_bit 16 c2;
          c4 = (c3 AND 0xffff) + drop_bit 16 c3
      in ucast c4)"

text \<open>
  Lines 199 to 203 of the node: the value written to \<^verbatim>\<open>*checksum0\<close>, from the value
  read there, the source address in the packet and the mapping's \<^verbatim>\<open>e_addr\<close>.
\<close>

definition nat66_csum_adjust :: "u16 \<Rightarrow> ip6_address \<Rightarrow> ip6_address \<Rightarrow> u16" where
  "nat66_csum_adjust checksum0 src e =
     (let csum0 = ip_csum_sub_even (ucast checksum0) (fst src);
          csum1 = ip_csum_sub_even csum0 (snd src);
          csum2 = ip_csum_add_even csum1 (fst e);
          csum3 = ip_csum_add_even csum2 (snd e)
      in ip_csum_fold csum3)"

section \<open>The checksum from scratch\<close>








section \<open>The rewrite of one packet\<close>

text \<open>
  The address \<^verbatim>\<open>checksum0\<close> (as an offset from \<^verbatim>\<open>ip60\<close>) chosen by the if-chain on
  \<^verbatim>\<open>l4_protocol0\<close>; \<open>None\<close> is the branch \<^verbatim>\<open>goto skip_csum0\<close>.
\<close>

definition nat66_checksum0 :: "u8 \<Rightarrow> u16 \<Rightarrow> nat option" where
  "nat66_checksum0 l4_protocol0 l4_offset0 =
     (if l4_protocol0 = IP_PROTOCOL_UDP then Some (unat l4_offset0 + udp_checksum_offset)
      else if l4_protocol0 = IP_PROTOCOL_TCP then Some (unat l4_offset0 + tcp_checksum_offset)
      else if l4_protocol0 = IP_PROTOCOL_ICMP6 then Some (unat l4_offset0 + icmp_checksum_offset)
      else None)"

text \<open>
  Lines 181 to 207: the checksum is adjusted with the source address still in the
  packet, then both halves of the source address are overwritten.
\<close>

definition nat66_in2out_rewrite :: "u8 \<Rightarrow> u16 \<Rightarrow> nat66_static_mapping \<Rightarrow> (nat \<Rightarrow> u8) \<Rightarrow> (nat \<Rightarrow> u8)" where
  "nat66_in2out_rewrite l4_protocol0 l4_offset0 sm0 ip60 =
     (let m = (case nat66_checksum0 l4_protocol0 l4_offset0 of
                 None \<Rightarrow> ip60
               | Some checksum0 \<Rightarrow>
                   store_u16 ip60 checksum0
                     (nat66_csum_adjust (load_u16 ip60 checksum0)
                        (load_address ip60 src_address_offset) (e_addr sm0)))
      in store_address m src_address_offset (e_addr sm0))"

text \<open>
  What the loop body does with one buffer, from \<^verbatim>\<open>ip6_parse\<close> to the label
  \<^verbatim>\<open>trace0\<close>: the disposition \<^verbatim>\<open>next0\<close>, the buffer afterwards, the arguments
  (index, packets, bytes) of the call of \<^verbatim>\<open>vlib_increment_combined_counter\<close> if it is
  reached, and the calls made.
\<close>

record packet_result =
  r_next0 :: nat66_in2out_next
  r_b0 :: vlib_buffer
  r_counter :: "(u32 \<times> u64 \<times> u64) option"
  r_calls :: "call list"

definition nat66_in2out_packet :: "env \<Rightarrow> vlib_buffer \<Rightarrow> packet_result" where
  "nat66_in2out_packet e b0 =
     (case ip6_parse e (data b0) (current_length b0) of
        None \<Rightarrow>
          \<lparr>r_next0 = NAT66_IN2OUT_NEXT_DROP,
           r_b0 = b0\<lparr>error := node_errors e NAT66_IN2OUT_ERROR_UNKNOWN\<rparr>,
           r_counter = None, r_calls = []\<rparr>
      | Some (l4_protocol0, l4_offset0, frag_offset0) \<Rightarrow>
          let sw_if_index0 = sw_if_index_rx b0;
              fib_index0 = fib_table_get_index_for_sw_if_index e sw_if_index0;
              c = nat66_not_translate e fib_index0 (load_address (data b0) dst_address_offset);
              not_translate = fst c;
              calls = snd c
          in if not_translate \<noteq> 0 then
               \<lparr>r_next0 = NAT66_IN2OUT_NEXT_IP6_LOOKUP, r_b0 = b0, r_counter = None,
                r_calls = calls\<rparr>
             else
               let src = load_address (data b0) src_address_offset;
                   calls' = calls @ [Nat66_static_mapping_get src fib_index0]
               in (case nat66_static_mapping_get e src fib_index0 of
                    None \<Rightarrow>
                      \<lparr>r_next0 = NAT66_IN2OUT_NEXT_IP6_LOOKUP, r_b0 = b0, r_counter = None,
                       r_calls = calls'\<rparr>
                  | Some (index, sm0) \<Rightarrow>
                      let b0' = b0\<lparr>data := nat66_in2out_rewrite l4_protocol0 l4_offset0 sm0 (data b0)\<rparr>;
                          n_bytes = vlib_buffer_length_in_chain e b0'
                      in \<lparr>r_next0 = NAT66_IN2OUT_NEXT_IP6_LOOKUP, r_b0 = b0',
                          r_counter = Some (index, 1, n_bytes),
                          r_calls = calls' @
                            [Vlib_increment_combined_counter (thread_index e) index 1 n_bytes]\<rparr>))"

text \<open>
  The three decisions the body takes for a buffer, as the theorems name them: the
  result of the parser, the return value of the classifier for the FIB of the
  receiving interface and the destination address in the packet, and the result of
  the mapping lookup for the source address in the packet.
\<close>

definition packet_parse :: "env \<Rightarrow> vlib_buffer \<Rightarrow> (u8 \<times> u16 \<times> u16) option" where
  "packet_parse e b0 = ip6_parse e (data b0) (current_length b0)"

definition packet_not_translate :: "env \<Rightarrow> vlib_buffer \<Rightarrow> u8" where
  "packet_not_translate e b0 =
     fst (nat66_not_translate e (fib_table_get_index_for_sw_if_index e (sw_if_index_rx b0))
            (load_address (data b0) dst_address_offset))"

definition packet_mapping :: "env \<Rightarrow> vlib_buffer \<Rightarrow> (u32 \<times> nat66_static_mapping) option" where
  "packet_mapping e b0 =
     nat66_static_mapping_get e (load_address (data b0) src_address_offset)
       (fib_table_get_index_for_sw_if_index e (sw_if_index_rx b0))"

section \<open>The batch loop\<close>

text \<open>
  What the node changes: the buffers (\<^verbatim>\<open>vlib_get_buffer\<close>), the per-mapping counters
  \<^verbatim>\<open>nm->session_counters\<close> by thread and mapping index as (packets, bytes), the
  node's error counters by node and error, the handles enqueued to each next stage so
  far, the trace records, the calls made, and the locals \<^verbatim>\<open>next_index\<close> and
  \<^verbatim>\<open>pkts_processed\<close>.
\<close>

record node_state =
  buffers :: "u32 \<Rightarrow> vlib_buffer"
  session_counters :: "u32 \<Rightarrow> u32 \<Rightarrow> u64 \<times> u64"
  node_counters :: "u32 \<Rightarrow> nat66_in2out_error \<Rightarrow> u64"
  frames :: "nat66_in2out_next \<Rightarrow> u32 list"
  traces :: "nat66_in2out_trace list"
  calls :: "call list"
  next_index :: nat66_in2out_next
  pkts_processed :: u32

text \<open>
  Modelled from the spec: \<^verbatim>\<open>vlib_increment_combined_counter\<close> and
  \<^verbatim>\<open>vlib_node_increment_counter\<close> (vlib) are missing. Section 3: the per-mapping
  counters are (packets, bytes) accumulators keyed by mapping index and thread
  identifier, updated by an increment call; section 4.5: the running total is reported
  to the "packets processed" counter.
\<close>

definition vlib_increment_combined_counter ::
  "(u32 \<Rightarrow> u32 \<Rightarrow> u64 \<times> u64) \<Rightarrow> u32 \<Rightarrow> u32 \<Rightarrow> u64 \<Rightarrow> u64 \<Rightarrow> (u32 \<Rightarrow> u32 \<Rightarrow> u64 \<times> u64)" where
  "vlib_increment_combined_counter cm thread index n_packets n_bytes =
     cm(thread := (cm thread)(index :=
        (fst (cm thread index) + n_packets, snd (cm thread index) + n_bytes)))"

definition vlib_node_increment_counter ::
  "(u32 \<Rightarrow> nat66_in2out_error \<Rightarrow> u64) \<Rightarrow> u32 \<Rightarrow> nat66_in2out_error \<Rightarrow> u64 \<Rightarrow> (u32 \<Rightarrow> nat66_in2out_error \<Rightarrow> u64)" where
  "vlib_node_increment_counter em node_index counter_index increment =
     em(node_index := (em node_index)(counter_index := em node_index counter_index + increment))"

text \<open>
  Modelled from the spec: the macros \<^verbatim>\<open>vlib_get_next_frame\<close>, \<^verbatim>\<open>vlib_put_next_frame\<close>
  and \<^verbatim>\<open>vlib_validate_buffer_enqueue_x1\<close> (vlib) are missing. Sections 4.5 and 9: the
  speculative enqueue is the dispatch framework's idiom for "process each packet of
  the input vector in order, write one disposition per packet". \<open>frames st n\<close> is the
  sequence of handles given to next stage \<open>n\<close>. The body first stores \<^verbatim>\<open>bi0\<close> in the
  frame of \<^verbatim>\<open>next_index\<close>; when \<^verbatim>\<open>next0\<close> turns out to differ, the validation gives that
  slot back, makes \<^verbatim>\<open>next0\<close> the current next stage and stores \<^verbatim>\<open>bi0\<close> in its frame.
  A next frame always has a free slot, so the two nested loops visit every element of
  the input vector once, in order.
\<close>

definition speculative_enqueue :: "node_state \<Rightarrow> u32 \<Rightarrow> node_state" where
  "speculative_enqueue st bi0 =
     st\<lparr>frames := (frames st)(next_index st := frames st (next_index st) @ [bi0])\<rparr>"

definition vlib_validate_buffer_enqueue_x1 :: "node_state \<Rightarrow> u32 \<Rightarrow> nat66_in2out_next \<Rightarrow> node_state" where
  "vlib_validate_buffer_enqueue_x1 st bi0 next0 =
     (if next0 \<noteq> next_index st then
        st\<lparr>frames := (frames st)
              (next_index st := butlast (frames st (next_index st)),
               next0 := frames st next0 @ [bi0]),
           next_index := next0\<rparr>
      else st)"

text \<open>One pass of the inner loop body for the handle \<^verbatim>\<open>bi0 = from[0]\<close>.\<close>

definition nat66_in2out_body :: "env \<Rightarrow> node_state \<Rightarrow> u32 \<Rightarrow> node_state \<times> nat66_in2out_next" where
  "nat66_in2out_body e st bi0 =
     (let st1 = speculative_enqueue st bi0;
          b0 = buffers st1 bi0;
          r = nat66_in2out_packet e b0;
          next0 = r_next0 r;
          st2 = st1\<lparr>buffers := (buffers st1)(bi0 := r_b0 r),
                    session_counters :=
                      (case r_counter r of
                         None \<Rightarrow> session_counters st1
                       | Some (index, n_packets, n_bytes) \<Rightarrow>
                           vlib_increment_combined_counter (session_counters st1)
                             (thread_index e) index n_packets n_bytes),
                    calls := calls st1 @ r_calls r\<rparr>;
          st3 = (if node_trace e \<and> is_traced (r_b0 r) then
                   st2\<lparr>traces := traces st2 @
                          [\<lparr>t_sw_if_index = sw_if_index_rx (r_b0 r), t_next_index = next0\<rparr>]\<rparr>
                 else st2);
          st4 = st3\<lparr>pkts_processed := pkts_processed st3 +
                       (if next0 \<noteq> NAT66_IN2OUT_NEXT_DROP then 1 else 0)\<rparr>
      in (vlib_validate_buffer_enqueue_x1 st4 bi0 next0, next0))"

fun nat66_in2out_loop :: "env \<Rightarrow> node_state \<Rightarrow> u32 list \<Rightarrow> node_state" where
  "nat66_in2out_loop e st [] = st"
| "nat66_in2out_loop e st (bi0 # from) = nat66_in2out_loop e (fst (nat66_in2out_body e st bi0)) from"

text \<open>
  The node function on the input vector \<open>from\<close> of a frame, \<open>cached\<close> being
  \<^verbatim>\<open>node->cached_next_index\<close>. It returns \<^verbatim>\<open>frame->n_vectors\<close>.
\<close>

definition nat66_in2out_node :: "env \<Rightarrow> nat66_in2out_next \<Rightarrow> node_state \<Rightarrow> u32 list \<Rightarrow> node_state \<times> nat" where
  "nat66_in2out_node e cached st from =
     (let st0 = st\<lparr>next_index := cached, pkts_processed := 0\<rparr>;
          st1 = nat66_in2out_loop e st0 from;
          increment = ucast (pkts_processed st1);
          st2 = st1\<lparr>node_counters :=
                      vlib_node_increment_counter (node_counters st1) (in2out_node_index e)
                        NAT66_IN2OUT_ERROR_IN2OUT_PACKETS increment,
                    calls := calls st1 @
                      [Vlib_node_increment_counter (in2out_node_index e)
                         NAT66_IN2OUT_ERROR_IN2OUT_PACKETS increment]\<rparr>
      in (st2, length from))"

text \<open>
  The dispositions of a batch: the values of \<^verbatim>\<open>next0\<close> of the successive passes of
  the loop body, in input order.
\<close>

fun nat66_in2out_dispositions :: "env \<Rightarrow> node_state \<Rightarrow> u32 list \<Rightarrow> nat66_in2out_next list" where
  "nat66_in2out_dispositions e st [] = []"
| "nat66_in2out_dispositions e st (bi0 # from) =
     snd (nat66_in2out_body e st bi0) #
       nat66_in2out_dispositions e (fst (nat66_in2out_body e st bi0)) from"

section \<open>The discard stage\<close>

text \<open>
  Modelled from the spec: the stage that receives the packets whose disposition is
  \<open>DROP\<close> is missing. Section 7: on a parse error "the packet is dropped and a
  dedicated counter increments"; section 8: "the error counter increments by exactly
  1". The node stores the error code \<^verbatim>\<open>node->errors[NAT66_IN2OUT_ERROR_UNKNOWN]\<close> in
  the buffer and increments nothing itself; the discard stage counts each buffer it
  drops under the code the buffer carries.
\<close>

definition error_drop :: "(u32 \<Rightarrow> u64) \<Rightarrow> vlib_buffer \<Rightarrow> (u32 \<Rightarrow> u64)" where
  "error_drop counters b = counters(error b := counters (error b) + 1)"

section \<open>Example inputs\<close>

text \<open>
  A configuration used to run the definitions. Addresses are given as the two
  halves a little-endian host loads: \<open>example_src\<close> is fd00::a, \<open>example_e_addr\<close> is
  2001:db8:aa::b, and the three destinations are 2001:db8::1, 2001:db8::2 and
  2001:db8::3. Interface 1 is inside and interface 3 outside. In FIB 0 the first
  destination resolves to interface 3 and the other two have a route without a
  resolving interface; in the outside FIB 5 the second destination resolves to
  interface 3 and the third still has no resolving interface. One static mapping, of
  pool index 4, maps \<open>example_src\<close> to \<open>example_e_addr\<close>. The parser accepts a buffer
  of at least 44 bytes and reports the next-header byte and the offset 40.
\<close>

definition example_src :: ip6_address where
  "example_src = (0x00000000000000fd, 0x0a00000000000000)"

definition example_e_addr :: ip6_address where
  "example_e_addr = (0x0000aa00b80d0120, 0x0b00000000000000)"

definition example_dst_outside :: ip6_address where
  "example_dst_outside = (0x00000000b80d0120, 0x0100000000000000)"

definition example_dst_fallback :: ip6_address where
  "example_dst_fallback = (0x00000000b80d0120, 0x0200000000000000)"

definition example_dst_unresolved :: ip6_address where
  "example_dst_unresolved = (0x00000000b80d0120, 0x0300000000000000)"

definition example_interfaces :: "snat_interface list" where
  "example_interfaces = [\<lparr>sw_if_index = 1, flags = 1\<rparr>, \<lparr>sw_if_index = 3, flags = 2\<rparr>]"

definition example_env :: env where
  "example_env =
     \<lparr>fib_table_lookup = (\<lambda>fib a.
          if fib = 0 \<and> a = example_dst_outside then 10
          else if fib = 0 \<and> a = example_dst_fallback then 11
          else if fib = 5 \<and> a = example_dst_fallback then 12
          else if fib = 0 \<and> a = example_dst_unresolved then 11
          else if fib = 5 \<and> a = example_dst_unresolved then 13
          else NOT 0),
      fib_entry_get_resolving_interface = (\<lambda>fei. if fei = 10 \<or> fei = 12 then 3 else NOT 0),
      fib_table_get_index_for_sw_if_index = (\<lambda>sw. 0),
      nat_interface_is_outside = (\<lambda>i. flags i AND 2 \<noteq> 0),
      nat66_static_mapping_get = (\<lambda>a fib.
          if a = example_src \<and> fib = 0
          then Some (4, \<lparr>l_addr = example_src, e_addr = example_e_addr, fib_index = 0\<rparr>)
          else None),
      ip6_parse = (\<lambda>d len. if len < 44 then None else Some (d 6, 40, 0)),
      vlib_buffer_length_in_chain = (\<lambda>b. ucast (current_length b)),
      outside_fib_index = 5,
      interfaces = example_interfaces,
      in2out_node_index = 9,
      thread_index = 2,
      node_trace = False,
      node_errors = (\<lambda>err. case err of NAT66_IN2OUT_ERROR_IN2OUT_PACKETS \<Rightarrow> 30
                       | NAT66_IN2OUT_ERROR_NO_TRANSLATION \<Rightarrow> 31 | NAT66_IN2OUT_ERROR_UNKNOWN \<Rightarrow> 32)\<rparr>"

text \<open>
  A datagram from \<open>example_src\<close> to a destination whose second half ends in the byte
  \<open>dst\<close>, with next header \<open>proto\<close> and transport bytes \<open>l4\<close>, and a buffer that holds
  such bytes, received on interface 1.
\<close>

definition example_packet :: "u8 \<Rightarrow> u8 \<Rightarrow> u8 list \<Rightarrow> u8 list" where
  "example_packet dst proto l4 =
     [0x60, 0, 0, 0, 0, of_nat (length l4), proto, 64,
      0xfd, 0, 0, 0, 0, 0, 0, 0,  0, 0, 0, 0, 0, 0, 0, 0x0a,
      0x20, 0x01, 0x0d, 0xb8, 0, 0, 0, 0,  0, 0, 0, 0, 0, 0, 0, dst] @ l4"

definition example_buffer :: "u8 list \<Rightarrow> vlib_buffer" where
  "example_buffer bytes =
     \<lparr>data = (\<lambda>i. if i < length bytes then bytes ! i else 0),
      current_length = of_nat (length bytes),
      sw_if_index_rx = 1, error = 0, is_traced = False\<rparr>"

definition example_state :: "(u32 \<Rightarrow> vlib_buffer) \<Rightarrow> node_state" where
  "example_state bufs =
     \<lparr>buffers = bufs,
      session_counters = (\<lambda>thread index. (0, 0)),
      node_counters = (\<lambda>node_index counter_index. 0),
      frames = (\<lambda>n. []),
      traces = [],
      calls = [],
      next_index = NAT66_IN2OUT_NEXT_IP6_LOOKUP,
      pkts_processed = 0\<rparr>"

text \<open>
  Three buffers: a UDP datagram with a zero checksum field to the destination that
  resolves to the outside interface, four bytes that the parser rejects, and the same
  UDP datagram to the destination that no FIB resolves. They are the buffers of the
  handles 1, 2 and any other.
\<close>

definition example_udp :: "u8 list" where
  "example_udp = example_packet 1 17 [0x12, 0x34, 0, 0x35, 0, 0x0a, 0, 0, 0x68, 0x69]"

definition example_unrouted :: "u8 list" where
  "example_unrouted = example_packet 3 17 [0x12, 0x34, 0, 0x35, 0, 0x0a, 0, 0, 0x68, 0x69]"

definition example_short :: "u8 list" where
  "example_short = [0x60, 0, 0, 0]"

definition example_buffers :: "u32 \<Rightarrow> vlib_buffer" where
  "example_buffers bi =
     (if bi = 1 then example_buffer example_udp
      else if bi = 2 then example_buffer example_short
      else example_buffer example_unrouted)"

text \<open>
  Datagrams from \<open>example_src\<close> to the destination that resolves to the outside
  interface, each with the checksum that is valid for it: a UDP datagram, a TCP
  segment and two ICMPv6 echo requests. For the second echo request the from-scratch
  checksum after the translation to \<open>example_e_addr\<close> is zero.
\<close>

definition example_udp_valid :: "u8 list" where
  "example_udp_valid = example_packet 1 17 [0x12, 0x34, 0, 0x35, 0, 0x0a, 0x5a, 0x43, 0x68, 0x69]"

definition example_tcp_valid :: "u8 list" where
  "example_tcp_valid =
     example_packet 1 6 [0x12, 0x34, 0, 0x50, 0, 0, 0, 1, 0, 0, 0, 0, 0x50, 0x02, 0x20, 0, 0x52, 0x99, 0, 0]"

definition example_icmp_valid :: "u8 list" where
  "example_icmp_valid = example_packet 1 58 [0x80, 0, 0x42, 0xc3, 0x12, 0x34, 0, 1]"

definition example_icmp_zero :: "u8 list" where
  "example_icmp_zero = example_packet 1 58 [0x80, 0, 0x31, 0x63, 0x23, 0x94, 0, 1]"

definition example_buffers_of :: "u8 list \<Rightarrow> u32 \<Rightarrow> vlib_buffer" where
  "example_buffers_of bytes bi = example_buffer bytes"

definition example_mapping :: nat66_static_mapping where
  "example_mapping = \<lparr>l_addr = example_src, e_addr = example_e_addr, fib_index = 0\<rparr>"

text \<open>
  A mapping whose outside address is the inside address itself, and the configuration
  whose mapping table holds it.
\<close>

definition example_mapping_same :: nat66_static_mapping where
  "example_mapping_same = \<lparr>l_addr = example_src, e_addr = example_src, fib_index = 0\<rparr>"

definition example_env_same :: env where
  "example_env_same =
     example_env\<lparr>nat66_static_mapping_get := (\<lambda>a fib.
        if a = example_src \<and> fib = 0 then Some (4, example_mapping_same) else None)\<rparr>"

lemmas example_simps =
  example_env_def example_interfaces_def example_src_def example_e_addr_def
  example_dst_outside_def example_dst_fallback_def example_dst_unresolved_def

section \<open>Loads and stores\<close>

lemma load_u64_eval:
  "load_u64 m a = ucast (m a) OR push_bit 8 (ucast (m (a + 1))) OR push_bit 16 (ucast (m (a + 2)))
     OR push_bit 24 (ucast (m (a + 3))) OR push_bit 32 (ucast (m (a + 4)))
     OR push_bit 40 (ucast (m (a + 5))) OR push_bit 48 (ucast (m (a + 6)))
     OR push_bit 56 (ucast (m (a + 7)))"
  by (simp add: load_u64_def eval_nat_numeral push_bit_or push_bit_push_bit ac_simps)

lemma load_u16_eval:
  "load_u16 m a = ucast (m a) OR push_bit 8 (ucast (m (a + 1)))"
  by (simp add: load_u16_def eval_nat_numeral)

lemmas example_packet_simps =
  example_simps example_buffer_def example_packet_def example_udp_def example_unrouted_def
  example_short_def example_buffers_def example_state_def
  example_udp_valid_def example_tcp_valid_def example_icmp_valid_def example_icmp_zero_def
  example_buffers_of_def example_mapping_def example_mapping_same_def
  packet_parse_def packet_not_translate_def packet_mapping_def nat66_not_translate_def
  FIB_NODE_INDEX_INVALID_def src_address_offset_def dst_address_offset_def
  load_address_def load_u64_eval load_u16_eval


lemma store_le_apply:
  "store_le m a n (v::'a::len word) i =
     (if a \<le> i \<and> i < a + n then ucast (drop_bit (8 * (i - a)) v) else m i)"
proof (induction n arbitrary: m a v)
  case 0
  then show ?case by auto
next
  case (Suc n)
  show ?case
  proof (cases "i = a")
    case True
    show ?thesis unfolding store_le.simps Suc.IH using True by simp
  next
    case False
    have "8 * (i - Suc a) + 8 = 8 * (i - a)" if "Suc a \<le> i"
      using that by simp
    then show ?thesis
      using False by (auto simp: Suc.IH drop_bit_drop_bit add.commute)
  qed
qed

lemma bit_load_le:
  "bit (load_le m a n :: 'a::len word) k \<longleftrightarrow>
     k < LENGTH('a) \<and> k < 8 * n \<and> bit (m (a + k div 8)) (k mod 8)"
proof (induction n arbitrary: a k)
  case 0
  then show ?case by simp
next
  case (Suc n)
  show ?case
  proof (cases "k < 8")
    case True
    then show ?thesis
      by (auto simp: bit_or_iff bit_ucast_iff bit_push_bit_iff dest: bit_imp_le_length)
  next
    case False
    then obtain j where j: "k = j + 8"
      by (metis le_add_diff_inverse2 not_less)
    have "bit (m a) (j + 8) = False"
      by (auto dest: bit_imp_le_length)
    moreover have "(j + 8) div 8 = Suc (j div 8)"
      by simp
    ultimately show ?thesis
      unfolding j by (auto simp: bit_or_iff bit_ucast_iff bit_push_bit_iff Suc.IH)
  qed
qed

lemma load_le_store_le:
  assumes "LENGTH('a::len) \<le> 8 * n"
  shows "load_le (store_le m a n (v::'a word)) a n = v"
proof (rule bit_word_eqI)
  fix k assume k: "k < LENGTH('a)"
  have "k div 8 < n" using k assms by (simp add: less_mult_imp_div_less mult.commute)
  then show "bit (load_le (store_le m a n v) a n :: 'a word) k = bit v k"
    using k assms
    by (auto simp: bit_load_le store_le_apply bit_ucast_iff bit_drop_bit_eq dest: bit_imp_le_length)
qed

lemma load_le_store_le_other:
  assumes "a + n \<le> b \<or> b + k \<le> a"
  shows "(load_le (store_le m a n (v::'b::len word)) b k :: 'a::len word) = load_le m b k"
proof (rule bit_word_eqI)
  fix j assume j: "j < LENGTH('a)"
  show "bit (load_le (store_le m a n v) b k :: 'a word) j = bit (load_le m b k :: 'a word) j"
  proof (cases "j < 8 * k")
    case True
    then have "j div 8 < k" by (simp add: less_mult_imp_div_less mult.commute)
    then show ?thesis using assms by (auto simp: bit_load_le store_le_apply)
  next
    case False
    then show ?thesis by (simp add: bit_load_le)
  qed
qed

lemma store_le_load_le:
  assumes "8 * n \<le> LENGTH('a::len)"
  shows "store_le m a n (load_le m a n :: 'a word) = m"
proof
  fix i
  show "store_le m a n (load_le m a n :: 'a word) i = m i"
  proof (cases "a \<le> i \<and> i < a + n")
    case True
    have "(ucast (drop_bit (8 * (i - a)) (load_le m a n :: 'a word)) :: u8) = m i"
    proof (rule bit_word_eqI)
      fix q assume q: "q < LENGTH(8)"
      then have "(8 * (i - a) + q) div 8 = i - a" "(8 * (i - a) + q) mod 8 = q"
        by simp_all
      moreover have "8 * (i - a) + q < 8 * n" using True q by auto
      ultimately show "bit (ucast (drop_bit (8 * (i - a)) (load_le m a n :: 'a word)) :: u8) q = bit (m i) q"
        using q True assms by (simp add: bit_ucast_iff bit_drop_bit_eq bit_load_le)
    qed
    then show ?thesis using True by (simp add: store_le_apply)
  next
    case False
    then show ?thesis by (auto simp: store_le_apply)
  qed
qed


section \<open>Properties of the classifier\<close>

lemma nat66_not_translate_scan_iff:
  "nat66_not_translate_scan is_out sw ifs = 0 \<longleftrightarrow> (\<exists>i \<in> set ifs. is_out i \<and> sw_if_index i = sw)"
  by (induction ifs) auto

lemma nat66_not_translate_scan_cases:
  "nat66_not_translate_scan is_out sw ifs = 0 \<or> nat66_not_translate_scan is_out sw ifs = 1"
  by (induction ifs) auto

text \<open>
  C1: the classifier returns "do not translate" when the ingress FIB has no route for
  the destination; when the route has a resolving interface, it translates exactly
  when a registered interface with the outside role has that interface index, and
  only the ingress FIB has been looked up; when the route has no resolving interface,
  the outside FIB is looked up second, "do not translate" is returned when it has no
  route, and otherwise the packet is translated exactly when a registered outside
  interface has the index that the second route resolves to. Return value 0 is
  "translate", 1 is "do not translate".
\<close>

theorem nat66_not_translate_decides:
  "(fib_table_lookup nm rx a = FIB_NODE_INDEX_INVALID \<longrightarrow>
      nat66_not_translate nm rx a = (1, [Fib_table_lookup rx a]))
   \<and> (fib_table_lookup nm rx a \<noteq> FIB_NODE_INDEX_INVALID
        \<and> fib_entry_get_resolving_interface nm (fib_table_lookup nm rx a) \<noteq> NOT 0 \<longrightarrow>
      snd (nat66_not_translate nm rx a) = [Fib_table_lookup rx a]
      \<and> (fst (nat66_not_translate nm rx a) = 0 \<longleftrightarrow>
           (\<exists>i \<in> set (interfaces nm). nat_interface_is_outside nm i
              \<and> sw_if_index i = fib_entry_get_resolving_interface nm (fib_table_lookup nm rx a))))
   \<and> (fib_table_lookup nm rx a \<noteq> FIB_NODE_INDEX_INVALID
        \<and> fib_entry_get_resolving_interface nm (fib_table_lookup nm rx a) = NOT 0
        \<and> fib_table_lookup nm (outside_fib_index nm) a = FIB_NODE_INDEX_INVALID \<longrightarrow>
      nat66_not_translate nm rx a =
        (1, [Fib_table_lookup rx a, Fib_table_lookup (outside_fib_index nm) a]))
   \<and> (fib_table_lookup nm rx a \<noteq> FIB_NODE_INDEX_INVALID
        \<and> fib_entry_get_resolving_interface nm (fib_table_lookup nm rx a) = NOT 0
        \<and> fib_table_lookup nm (outside_fib_index nm) a \<noteq> FIB_NODE_INDEX_INVALID \<longrightarrow>
      snd (nat66_not_translate nm rx a) =
        [Fib_table_lookup rx a, Fib_table_lookup (outside_fib_index nm) a]
      \<and> (fst (nat66_not_translate nm rx a) = 0 \<longleftrightarrow>
           (\<exists>i \<in> set (interfaces nm). nat_interface_is_outside nm i
              \<and> sw_if_index i =
                  fib_entry_get_resolving_interface nm (fib_table_lookup nm (outside_fib_index nm) a))))
   \<and> (fst (nat66_not_translate nm rx a) = 0 \<or> fst (nat66_not_translate nm rx a) = 1)"
  using nat66_not_translate_scan_cases
  by (auto simp: nat66_not_translate_def Let_def nat66_not_translate_scan_iff)

theorem nat66_not_translate_decides_witness:
  "fib_table_lookup example_env 0 example_dst_fallback \<noteq> FIB_NODE_INDEX_INVALID
   \<and> fib_entry_get_resolving_interface example_env
        (fib_table_lookup example_env 0 example_dst_fallback) = NOT 0
   \<and> fib_table_lookup example_env (outside_fib_index example_env) example_dst_fallback
        \<noteq> FIB_NODE_INDEX_INVALID
   \<and> (\<exists>i \<in> set (interfaces example_env). nat_interface_is_outside example_env i
          \<and> sw_if_index i = fib_entry_get_resolving_interface example_env
               (fib_table_lookup example_env (outside_fib_index example_env) example_dst_fallback))
   \<and> nat66_not_translate example_env 0 example_dst_fallback =
        (0, [Fib_table_lookup 0 example_dst_fallback, Fib_table_lookup 5 example_dst_fallback])"
proof -
  have ex: "\<exists>i \<in> set (interfaces example_env). nat_interface_is_outside example_env i
          \<and> sw_if_index i = fib_entry_get_resolving_interface example_env
               (fib_table_lookup example_env (outside_fib_index example_env) example_dst_fallback)"
    by (simp add: example_simps)
  have hyps: "fib_table_lookup example_env 0 example_dst_fallback \<noteq> FIB_NODE_INDEX_INVALID
     \<and> fib_entry_get_resolving_interface example_env
          (fib_table_lookup example_env 0 example_dst_fallback) = NOT 0
     \<and> fib_table_lookup example_env (outside_fib_index example_env) example_dst_fallback
          \<noteq> FIB_NODE_INDEX_INVALID"
    by (simp add: example_simps FIB_NODE_INDEX_INVALID_def)
  have five: "outside_fib_index example_env = 5"
    by (simp add: example_env_def)
  from nat66_not_translate_decides [of example_env 0 "example_dst_fallback"] hyps ex
  have "snd (nat66_not_translate example_env 0 example_dst_fallback) =
          [Fib_table_lookup 0 example_dst_fallback, Fib_table_lookup 5 example_dst_fallback]
        \<and> fst (nat66_not_translate example_env 0 example_dst_fallback) = 0"
    unfolding five by blast
  then have "nat66_not_translate example_env 0 example_dst_fallback =
        (0, [Fib_table_lookup 0 example_dst_fallback, Fib_table_lookup 5 example_dst_fallback])"
    by (simp add: prod_eq_iff)
  with hyps ex show ?thesis by blast
qed

text \<open>
  C10: when the route of the ingress FIB and the route of the outside FIB both have no
  resolving interface, and no interface registered with the outside role has the
  invalid index as its own, exactly these two lookups are made, in this order, the
  invalid index goes to the scan of the registered interfaces, which finds no match,
  and the classifier returns "do not translate".
\<close>

theorem nat66_not_translate_fallback_unresolved:
  assumes "fib_table_lookup nm rx a \<noteq> FIB_NODE_INDEX_INVALID"
    and "fib_entry_get_resolving_interface nm (fib_table_lookup nm rx a) = NOT 0"
    and "fib_table_lookup nm (outside_fib_index nm) a \<noteq> FIB_NODE_INDEX_INVALID"
    and "fib_entry_get_resolving_interface nm (fib_table_lookup nm (outside_fib_index nm) a) = NOT 0"
    and "\<not> (\<exists>i \<in> set (interfaces nm). nat_interface_is_outside nm i \<and> sw_if_index i = NOT 0)"
  shows "nat66_not_translate nm rx a =
           (1, [Fib_table_lookup rx a, Fib_table_lookup (outside_fib_index nm) a])
         \<and> nat66_not_translate_scan (nat_interface_is_outside nm) (NOT 0) (interfaces nm) = 1"
proof -
  let ?scan = "nat66_not_translate_scan (nat_interface_is_outside nm) (NOT 0) (interfaces nm)"
  have r: "nat66_not_translate nm rx a =
             (?scan, [Fib_table_lookup rx a, Fib_table_lookup (outside_fib_index nm) a])"
    using assms(1-4) by (simp add: nat66_not_translate_def Let_def)
  have "?scan \<noteq> 0"
    using assms(5) by (simp add: nat66_not_translate_scan_iff)
  then have "?scan = 1"
    using nat66_not_translate_scan_cases [of "nat_interface_is_outside nm" "NOT 0" "interfaces nm"]
    by auto
  then show ?thesis
    by (simp add: r)
qed

theorem nat66_not_translate_fallback_unresolved_witness:
  "fib_table_lookup example_env 0 example_dst_unresolved \<noteq> FIB_NODE_INDEX_INVALID
   \<and> fib_entry_get_resolving_interface example_env
        (fib_table_lookup example_env 0 example_dst_unresolved) = NOT 0
   \<and> fib_table_lookup example_env (outside_fib_index example_env) example_dst_unresolved
        \<noteq> FIB_NODE_INDEX_INVALID
   \<and> fib_entry_get_resolving_interface example_env
        (fib_table_lookup example_env (outside_fib_index example_env) example_dst_unresolved) = NOT 0
   \<and> \<not> (\<exists>i \<in> set (interfaces example_env).
           nat_interface_is_outside example_env i \<and> sw_if_index i = NOT 0)
   \<and> nat66_not_translate example_env 0 example_dst_unresolved =
        (1, [Fib_table_lookup 0 example_dst_unresolved, Fib_table_lookup 5 example_dst_unresolved])"
proof -
  have h1: "fib_table_lookup example_env 0 example_dst_unresolved \<noteq> FIB_NODE_INDEX_INVALID"
    and h2: "fib_entry_get_resolving_interface example_env
        (fib_table_lookup example_env 0 example_dst_unresolved) = NOT 0"
    and h3: "fib_table_lookup example_env (outside_fib_index example_env) example_dst_unresolved
        \<noteq> FIB_NODE_INDEX_INVALID"
    and h4: "fib_entry_get_resolving_interface example_env
        (fib_table_lookup example_env (outside_fib_index example_env) example_dst_unresolved) = NOT 0"
    by (simp_all add: example_simps FIB_NODE_INDEX_INVALID_def)
  have h5: "\<not> (\<exists>i \<in> set (interfaces example_env).
                  nat_interface_is_outside example_env i \<and> sw_if_index i = NOT 0)"
    by (simp add: example_simps)
  have five: "outside_fib_index example_env = 5"
    by (simp add: example_env_def)
  from nat66_not_translate_fallback_unresolved [OF h1 h2 h3 h4 h5]
  have "nat66_not_translate example_env 0 example_dst_unresolved =
        (1, [Fib_table_lookup 0 example_dst_unresolved, Fib_table_lookup 5 example_dst_unresolved])"
    unfolding five by blast
  with h1 h2 h3 h4 h5 show ?thesis by blast
qed

section \<open>Properties of the rewrite and of the loop\<close>

subsection \<open>The rewrite\<close>

lemma nat66_checksum0_None:
  "nat66_checksum0 p off = None \<longleftrightarrow>
     p \<noteq> IP_PROTOCOL_UDP \<and> p \<noteq> IP_PROTOCOL_TCP \<and> p \<noteq> IP_PROTOCOL_ICMP6"
  by (simp add: nat66_checksum0_def)

lemma store_address_apply:
  "store_address m a x i =
     (if a \<le> i \<and> i < a + 8 then ucast (drop_bit (8 * (i - a)) (fst x))
      else if a + 8 \<le> i \<and> i < a + 16 then ucast (drop_bit (8 * (i - (a + 8))) (snd x))
      else m i)"
  by (auto simp: store_address_def store_u64_def store_le_apply)

lemma load_address_store_address:
  "load_address (store_address m a x) a = x"
proof -
  have 1: "load_u64 (store_u64 m' (a + 8) (snd x)) (a + 8) = snd x" for m'
    unfolding load_u64_def store_u64_def by (rule load_le_store_le) simp
  have 2: "load_u64 (store_u64 (store_u64 m a (fst x)) (a + 8) (snd x)) a = fst x"
    unfolding load_u64_def store_u64_def
    by (simp add: load_le_store_le_other load_le_store_le)
  show ?thesis
    by (simp add: load_address_def store_address_def 1 2 prod_eq_iff)
qed

lemma store_address_load_address:
  "store_address m a (load_address m a) = m"
proof -
  have 1: "store_u64 m a (load_u64 m a) = m" for a
    unfolding load_u64_def store_u64_def by (rule store_le_load_le) simp
  show ?thesis
    by (simp add: store_address_def load_address_def 1)
qed

lemma rewrite_src:
  "load_address (nat66_in2out_rewrite p off sm0 d) src_address_offset = e_addr sm0"
  by (simp add: nat66_in2out_rewrite_def Let_def load_address_store_address)

lemma rewrite_frame:
  assumes "\<not> (src_address_offset \<le> i \<and> i < src_address_offset + 16)"
    and "\<And>a. nat66_checksum0 p off = Some a \<Longrightarrow> \<not> (a \<le> i \<and> i < a + 2)"
  shows "nat66_in2out_rewrite p off sm0 d i = d i"
proof (cases "nat66_checksum0 p off")
  case None
  then show ?thesis
    using assms(1) by (auto simp: nat66_in2out_rewrite_def store_address_apply)
next
  case (Some a)
  then show ?thesis
    using assms(1) assms(2) [OF Some]
    by (auto simp: nat66_in2out_rewrite_def store_address_apply store_u16_def store_le_apply)
qed

lemma rewrite_checksum:
  assumes "nat66_checksum0 p off = Some a"
    and "a + 2 \<le> src_address_offset \<or> src_address_offset + 16 \<le> a"
  shows "load_u16 (nat66_in2out_rewrite p off sm0 d) a =
           nat66_csum_adjust (load_u16 d a) (load_address d src_address_offset) (e_addr sm0)"
proof -
  have "load_u16 (store_address m src_address_offset x) a = load_u16 m a" for m x
    using assms(2)
    unfolding load_u16_def store_address_def store_u64_def
    by (auto simp: load_le_store_le_other)
  moreover have "load_u16 (store_u16 d a v) a = v" for v
    unfolding load_u16_def store_u16_def by (rule load_le_store_le) simp
  ultimately show ?thesis
    using assms(1) by (simp add: nat66_in2out_rewrite_def)
qed

subsection \<open>One packet\<close>

lemma packet_drop_iff:
  "r_next0 (nat66_in2out_packet e b0) = NAT66_IN2OUT_NEXT_DROP \<longleftrightarrow> packet_parse e b0 = None"
  by (auto simp: nat66_in2out_packet_def packet_parse_def Let_def split: option.splits prod.splits)

lemma packet_parse_fail:
  assumes "packet_parse e b0 = None"
  shows "nat66_in2out_packet e b0 =
           \<lparr>r_next0 = NAT66_IN2OUT_NEXT_DROP,
            r_b0 = b0\<lparr>error := node_errors e NAT66_IN2OUT_ERROR_UNKNOWN\<rparr>,
            r_counter = None, r_calls = []\<rparr>"
  using assms by (simp add: nat66_in2out_packet_def packet_parse_def)

lemma not_translate_calls:
  "set (snd (nat66_not_translate e fib a)) \<subseteq> range (\<lambda>f. Fib_table_lookup f a)"
  by (auto simp: nat66_not_translate_def Let_def)

lemma packet_not_translated:
  assumes "packet_parse e b0 = Some (p, off, fr)"
    and "packet_not_translate e b0 \<noteq> 0 \<or> packet_mapping e b0 = None"
  shows "r_next0 (nat66_in2out_packet e b0) = NAT66_IN2OUT_NEXT_IP6_LOOKUP"
    and "r_b0 (nat66_in2out_packet e b0) = b0"
    and "r_counter (nat66_in2out_packet e b0) = None"
    and "Vlib_increment_combined_counter t i n l \<notin> set (r_calls (nat66_in2out_packet e b0))"
  using assms not_translate_calls [of e "fib_table_get_index_for_sw_if_index e (sw_if_index_rx b0)"
      "load_address (data b0) dst_address_offset"]
  by (auto simp: nat66_in2out_packet_def packet_parse_def packet_not_translate_def
      packet_mapping_def Let_def split: option.splits prod.splits)

lemma packet_translated:
  assumes "packet_parse e b0 = Some (p, off, fr)"
    and "packet_not_translate e b0 = 0"
    and "packet_mapping e b0 = Some (idx, sm0)"
  shows "r_next0 (nat66_in2out_packet e b0) = NAT66_IN2OUT_NEXT_IP6_LOOKUP"
    and "r_b0 (nat66_in2out_packet e b0) = b0\<lparr>data := nat66_in2out_rewrite p off sm0 (data b0)\<rparr>"
    and "r_counter (nat66_in2out_packet e b0) =
           Some (idx, 1, vlib_buffer_length_in_chain e (b0\<lparr>data := nat66_in2out_rewrite p off sm0 (data b0)\<rparr>))"
  using assms
  by (simp_all add: nat66_in2out_packet_def packet_parse_def packet_not_translate_def
      packet_mapping_def Let_def)

lemma packet_calls_no_node_counter:
  "Vlib_node_increment_counter a b c \<notin> set (r_calls (nat66_in2out_packet e b0))"
  using not_translate_calls [of e "fib_table_get_index_for_sw_if_index e (sw_if_index_rx b0)"
      "load_address (data b0) dst_address_offset"]
  by (auto simp: nat66_in2out_packet_def Let_def split: option.splits prod.splits)

subsection \<open>The loop body\<close>

lemma body_next0:
  "snd (nat66_in2out_body e st bi0) = r_next0 (nat66_in2out_packet e (buffers st bi0))"
  by (simp add: nat66_in2out_body_def Let_def speculative_enqueue_def)

lemma body_buffers:
  "buffers (fst (nat66_in2out_body e st bi0)) =
     (buffers st)(bi0 := r_b0 (nat66_in2out_packet e (buffers st bi0)))"
  by (simp add: nat66_in2out_body_def Let_def speculative_enqueue_def
      vlib_validate_buffer_enqueue_x1_def)

lemma body_session_counters:
  "session_counters (fst (nat66_in2out_body e st bi0)) =
     (case r_counter (nat66_in2out_packet e (buffers st bi0)) of
        None \<Rightarrow> session_counters st
      | Some (index, n_packets, n_bytes) \<Rightarrow>
          vlib_increment_combined_counter (session_counters st) (thread_index e) index n_packets n_bytes)"
  by (auto simp: nat66_in2out_body_def Let_def speculative_enqueue_def
      vlib_validate_buffer_enqueue_x1_def split: option.splits)

lemma body_calls:
  "calls (fst (nat66_in2out_body e st bi0)) =
     calls st @ r_calls (nat66_in2out_packet e (buffers st bi0))"
  by (simp add: nat66_in2out_body_def Let_def speculative_enqueue_def
      vlib_validate_buffer_enqueue_x1_def)

lemma body_node_counters:
  "node_counters (fst (nat66_in2out_body e st bi0)) = node_counters st"
  by (simp add: nat66_in2out_body_def Let_def speculative_enqueue_def
      vlib_validate_buffer_enqueue_x1_def)

lemma body_pkts_processed:
  "pkts_processed (fst (nat66_in2out_body e st bi0)) =
     pkts_processed st + (if snd (nat66_in2out_body e st bi0) \<noteq> NAT66_IN2OUT_NEXT_DROP then 1 else 0)"
  by (simp add: nat66_in2out_body_def Let_def speculative_enqueue_def
      vlib_validate_buffer_enqueue_x1_def)

lemma body_frames:
  "frames (fst (nat66_in2out_body e st bi0)) n =
     frames st n @ (if n = snd (nat66_in2out_body e st bi0) then [bi0] else [])"
  by (simp add: nat66_in2out_body_def Let_def speculative_enqueue_def
      vlib_validate_buffer_enqueue_x1_def)

lemma body_next_index:
  "next_index (fst (nat66_in2out_body e st bi0)) = snd (nat66_in2out_body e st bi0)"
  by (simp add: nat66_in2out_body_def Let_def speculative_enqueue_def
      vlib_validate_buffer_enqueue_x1_def)


subsection \<open>The loop\<close>

lemma loop_append:
  "nat66_in2out_loop e st (xs @ ys) = nat66_in2out_loop e (nat66_in2out_loop e st xs) ys"
  by (induction xs arbitrary: st) simp_all

lemma dispositions_append:
  "nat66_in2out_dispositions e st (xs @ ys) =
     nat66_in2out_dispositions e st xs @ nat66_in2out_dispositions e (nat66_in2out_loop e st xs) ys"
  by (induction xs arbitrary: st) simp_all

lemma dispositions_length:
  "length (nat66_in2out_dispositions e st from) = length from"
  by (induction "from" arbitrary: st) simp_all

lemma loop_take_Suc:
  assumes "k < length from"
  shows "nat66_in2out_loop e st (take (Suc k) from) =
           fst (nat66_in2out_body e (nat66_in2out_loop e st (take k from)) (from ! k))"
  using assms by (simp add: take_Suc_conv_app_nth loop_append)

lemma dispositions_nth:
  assumes "k < length from"
  shows "nat66_in2out_dispositions e st from ! k =
           snd (nat66_in2out_body e (nat66_in2out_loop e st (take k from)) (from ! k))"
proof -
  have "from = take k from @ from ! k # drop (Suc k) from"
    using assms by (simp add: id_take_nth_drop)
  then have "nat66_in2out_dispositions e st from =
      nat66_in2out_dispositions e st (take k from) @
      nat66_in2out_dispositions e (nat66_in2out_loop e st (take k from)) (from ! k # drop (Suc k) from)"
    by (metis dispositions_append)
  moreover have "length (nat66_in2out_dispositions e st (take k from)) = k"
    using assms by (simp add: dispositions_length)
  ultimately show ?thesis
    by (simp add: nth_append)
qed

lemma dispositions_drop:
  "drop k (nat66_in2out_dispositions e st from) =
     nat66_in2out_dispositions e (nat66_in2out_loop e st (take k from)) (drop k from)"
proof -
  have "nat66_in2out_dispositions e st (take k from @ drop k from) =
      nat66_in2out_dispositions e st (take k from) @
      nat66_in2out_dispositions e (nat66_in2out_loop e st (take k from)) (drop k from)"
    by (rule dispositions_append)
  moreover have "length (nat66_in2out_dispositions e st (take k from)) = min (length from) k"
    by (simp add: dispositions_length)
  ultimately show ?thesis
    by (cases "k \<le> length from") (simp_all add: dispositions_length)
qed

lemma loop_frames:
  "frames (nat66_in2out_loop e st from) n =
     frames st n @ map fst (filter (\<lambda>x. snd x = n) (zip from (nat66_in2out_dispositions e st from)))"
  by (induction "from" arbitrary: st) (simp_all add: body_frames)

lemma loop_pkts_processed:
  "pkts_processed (nat66_in2out_loop e st from) =
     pkts_processed st +
       of_nat (length (filter (\<lambda>d. d \<noteq> NAT66_IN2OUT_NEXT_DROP) (nat66_in2out_dispositions e st from)))"
  by (induction "from" arbitrary: st) (simp_all add: body_pkts_processed)

lemma loop_node_counters:
  "node_counters (nat66_in2out_loop e st from) = node_counters st"
  by (induction "from" arbitrary: st) (simp_all add: body_node_counters)

lemma loop_calls:
  "\<exists>cs. calls (nat66_in2out_loop e st from) = calls st @ cs
        \<and> (\<forall>c \<in> set cs. \<forall>a b n. c \<noteq> Vlib_node_increment_counter a b n)"
proof (induction "from" arbitrary: st)
  case Nil
  then show ?case by simp
next
  case (Cons bi0 "from")
  obtain cs where cs: "calls (nat66_in2out_loop e (fst (nat66_in2out_body e st bi0)) from) =
      calls (fst (nat66_in2out_body e st bi0)) @ cs"
      "\<forall>c \<in> set cs. \<forall>a b n. c \<noteq> Vlib_node_increment_counter a b n"
    using Cons.IH by blast
  let ?r = "r_calls (nat66_in2out_packet e (buffers st bi0))"
  have "calls (nat66_in2out_loop e st (bi0 # from)) = calls st @ (?r @ cs)"
    by (simp add: cs(1) body_calls)
  moreover have "\<forall>c \<in> set (?r @ cs). \<forall>a b n. c \<noteq> Vlib_node_increment_counter a b n"
    using cs(2) packet_calls_no_node_counter [of _ _ _ e "buffers st bi0"] by auto
  ultimately show ?case by blast
qed

section \<open>Properties of the checksum arithmetic\<close>

lemma unat_ip_csum_with_carry:
  "unat (ip_csum_with_carry s x) =
     (if unat s + unat x < 2 ^ 64 then unat s + unat x else unat s + unat x - (2 ^ 64 - 1))"
proof -
  have sx: "unat s < 2 ^ 64" "unat x < 2 ^ 64"
    using unsigned_less [of s] unsigned_less [of x] by simp_all
  have t: "unat (s + x) = (if unat s + unat x < 2 ^ 64 then unat s + unat x else unat s + unat x - 2 ^ 64)"
    using unat_plus_if' [of s x] by simp
  show ?thesis
  proof (cases "unat s + unat x < 2 ^ 64")
    case True
    then have "\<not> s + x < x"
      using t by (simp add: word_less_nat_alt)
    then show ?thesis
      using True t by (simp add: ip_csum_with_carry_def)
  next
    case False
    then have lt: "s + x < x"
      using t sx by (simp add: word_less_nat_alt)
    have "unat (s + x) + 1 < 2 ^ 64"
      using False t sx by simp
    then have "unat (s + x + 1) = unat (s + x) + 1"
      using unat_plus_if' [of "s + x" 1] by simp
    then show ?thesis
      using False t lt sx by (simp add: ip_csum_with_carry_def)
  qed
qed

lemma unat_ip_csum_add_even:
  "unat (ip_csum_add_even c x) =
     (if unat x \<le> unat c then unat c - unat x else unat c + (2 ^ 64 - 1) - unat x)"
proof -
  have cx: "unat c < 2 ^ 64" "unat x < 2 ^ 64"
    using unsigned_less [of c] unsigned_less [of x] by simp_all
  have d: "unat (c - x) = (if unat x \<le> unat c then unat c - unat x else unat c + 2 ^ 64 - unat x)"
    using unat_sub_if_size [of c x] by (simp add: word_size)
  show ?thesis
  proof (cases "unat x \<le> unat c")
    case True
    then have "\<not> c - x > c"
      using d by (simp add: word_less_nat_alt)
    then show ?thesis
      using True d by (simp add: ip_csum_add_even_def)
  next
    case False
    then have gt: "c - x > c"
      using d cx by (simp add: word_less_nat_alt)
    have "1 \<le> unat (c - x)"
      using False d cx by simp
    then have "unat (c - x - 1) = unat (c - x) - 1"
      using unat_sub_if_size [of "c - x" 1] by simp
    then show ?thesis
      using False d gt cx by (simp add: ip_csum_add_even_def)
  qed
qed


lemma unat_and_ffff:
  "unat (c AND 0xffff :: u64) = unat c mod 2 ^ 16"
proof -
  have "(0xffff :: u64) = mask 16"
    by (simp add: mask_eq_exp_minus_1)
  then have "c AND 0xffff = take_bit 16 c"
    by (simp only: take_bit_eq_mask)
  then show ?thesis
    using unsigned_take_bit_eq [of 16 c, where ?'a = nat] take_bit_eq_mod [of 16 "unat c"]
    by (simp only:)
qed

lemma unat_and_ffffffff:
  "unat (c AND 0xffffffff :: u64) = unat c mod 2 ^ 32"
proof -
  have "(0xffffffff :: u64) = mask 32"
    by (simp add: mask_eq_exp_minus_1)
  then have "c AND 0xffffffff = take_bit 32 c"
    by (simp only: take_bit_eq_mask)
  then show ?thesis
    using unsigned_take_bit_eq [of 32 c, where ?'a = nat] take_bit_eq_mod [of 32 "unat c"]
    by (simp only:)
qed

lemma unat_drop_bit_div:
  "unat (drop_bit n c :: u64) = unat c div 2 ^ n"
  using unat_drop_bit_eq [of n c] drop_bit_eq_div [of n "unat c"]
  by (simp only:)

lemma unat_fold_step16:
  assumes "unat c < 2 ^ 63"
  shows "unat ((c AND 0xffff) + drop_bit 16 c :: u64) = unat c mod 2 ^ 16 + unat c div 2 ^ 16"
proof -
  have "unat c div 2 ^ 16 \<le> unat c"
    by (rule div_le_dividend)
  moreover have "unat c mod 2 ^ 16 < 2 ^ 16"
    by simp
  ultimately have "unat c mod 2 ^ 16 + unat c div 2 ^ 16 < 2 ^ 64"
    using assms by simp
  then have "unat (c AND 0xffff) + unat (drop_bit 16 c) < 2 ^ LENGTH(64)"
    by (simp only: unat_and_ffff unat_drop_bit_div) simp
  then have "unat ((c AND 0xffff) + drop_bit 16 c) = unat (c AND 0xffff) + unat (drop_bit 16 c)"
    by (simp only: unat_add_lem)
  then show ?thesis
    by (simp only: unat_and_ffff unat_drop_bit_div)
qed

lemma unat_fold_step32:
  "unat ((c AND 0xffffffff) + drop_bit 32 c :: u64) = unat c mod 2 ^ 32 + unat c div 2 ^ 32"
proof -
  have "unat c < 2 ^ 64"
    using unsigned_less [of c] by simp
  then have "unat c div 2 ^ 32 < 2 ^ 32"
    by (simp add: less_mult_imp_div_less)
  moreover have "unat c mod 2 ^ 32 < 2 ^ 32"
    by simp
  ultimately have "unat c mod 2 ^ 32 + unat c div 2 ^ 32 < 2 ^ 64"
    by simp
  then have "unat (c AND 0xffffffff) + unat (drop_bit 32 c) < 2 ^ LENGTH(64)"
    by (simp only: unat_and_ffffffff unat_drop_bit_div) simp
  then have "unat ((c AND 0xffffffff) + drop_bit 32 c) = unat (c AND 0xffffffff) + unat (drop_bit 32 c)"
    by (simp only: unat_add_lem)
  then show ?thesis
    by (simp only: unat_and_ffffffff unat_drop_bit_div)
qed



lemma fold_step_diff:
  "int n - int (n mod k + n div k) = (int k - 1) * int (n div k)"
proof -
  have "int n = int k * int (n div k) + int (n mod k)"
    by (metis mult_div_mod_eq of_nat_add of_nat_mult)
  then show ?thesis
    by (simp add: algebra_simps)
qed

lemma ip_csum_fold_unat:
  fixes c :: u64
  defines "n1 \<equiv> unat c mod 2 ^ 32 + unat c div 2 ^ 32"
  defines "n2 \<equiv> n1 mod 2 ^ 16 + n1 div 2 ^ 16"
  defines "n3 \<equiv> n2 mod 2 ^ 16 + n2 div 2 ^ 16"
  defines "n4 \<equiv> n3 mod 2 ^ 16 + n3 div 2 ^ 16"
  shows "unat (ip_csum_fold c) = n4" and "n4 \<le> 65535"
proof -
  let ?c1 = "(c AND 0xffffffff) + drop_bit 32 c"
  let ?c2 = "(?c1 AND 0xffff) + drop_bit 16 ?c1"
  let ?c3 = "(?c2 AND 0xffff) + drop_bit 16 ?c2"
  let ?c4 = "(?c3 AND 0xffff) + drop_bit 16 ?c3"
  have b0: "unat c < 2 ^ 64"
    using unsigned_less [of c] by simp
  have b1: "n1 < 2 ^ 33"
  proof -
    have "unat c div 2 ^ 32 < 2 ^ 32"
      using b0 by (simp add: less_mult_imp_div_less)
    moreover have "unat c mod 2 ^ 32 < 2 ^ 32"
      by simp
    ultimately show ?thesis
      unfolding n1_def by simp
  qed
  have b2: "n2 < 2 ^ 18"
  proof -
    have "n1 div 2 ^ 16 < 2 ^ 17"
      using b1 by (simp add: less_mult_imp_div_less)
    moreover have "n1 mod 2 ^ 16 < 2 ^ 16"
      by simp
    ultimately show ?thesis
      unfolding n2_def by simp
  qed
  have b3: "n3 < 65536 + 4"
  proof -
    have "n2 div 2 ^ 16 < 4"
      using b2 by (simp add: less_mult_imp_div_less)
    moreover have "n2 mod 2 ^ 16 < 2 ^ 16"
      by simp
    ultimately show ?thesis
      unfolding n3_def by simp
  qed
  show b4: "n4 \<le> 65535"
    using b3 unfolding n4_def by (auto simp: div_if mod_if)
  have u1: "unat ?c1 = n1"
    unfolding n1_def by (rule unat_fold_step32)
  have u2: "unat ?c2 = n2"
    unfolding n2_def using unat_fold_step16 [of ?c1] b1 by (simp add: u1)
  have u3: "unat ?c3 = n3"
    unfolding n3_def using unat_fold_step16 [of ?c2] b2 by (simp add: u2)
  have u4: "unat ?c4 = n4"
    unfolding n4_def using unat_fold_step16 [of ?c3] b3 by (simp add: u3)
  have "unat (ucast ?c4 :: u16) = n4 mod 2 ^ 16"
    using unsigned_ucast_eq [of ?c4, where ?'c = 16 and ?'a = nat] u4
    by (simp add: take_bit_eq_mod)
  then show "unat (ip_csum_fold c) = n4"
    using b4 by (simp add: ip_csum_fold_def Let_def)
qed


lemma ip_csum_fold_cong:
  "(65535::int) dvd int (unat c) - int (unat (ip_csum_fold c))"
proof -
  define n1 where "n1 = unat c mod 2 ^ 32 + unat c div 2 ^ 32"
  define n2 where "n2 = n1 mod 2 ^ 16 + n1 div 2 ^ 16"
  define n3 where "n3 = n2 mod 2 ^ 16 + n2 div 2 ^ 16"
  define n4 where "n4 = n3 mod 2 ^ 16 + n3 div 2 ^ 16"
  have f: "unat (ip_csum_fold c) = n4"
    unfolding n4_def n3_def n2_def n1_def by (rule ip_csum_fold_unat(1))
  have "int (unat c) - int n1 = 65535 * (65537 * int (unat c div 2 ^ 32))"
    unfolding n1_def fold_step_diff by simp
  moreover have "int n1 - int n2 = 65535 * int (n1 div 2 ^ 16)"
    unfolding n2_def fold_step_diff by simp
  moreover have "int n2 - int n3 = 65535 * int (n2 div 2 ^ 16)"
    unfolding n3_def fold_step_diff by simp
  moreover have "int n3 - int n4 = 65535 * int (n3 div 2 ^ 16)"
    unfolding n4_def fold_step_diff by simp
  ultimately have "int (unat c) - int n4 =
      65535 * (65537 * int (unat c div 2 ^ 32) + int (n1 div 2 ^ 16) + int (n2 div 2 ^ 16) + int (n3 div 2 ^ 16))"
    by (simp add: algebra_simps)
  then show ?thesis
    unfolding f by (metis dvd_triv_left)
qed


lemma ip_csum_fold_ucast:
  "ip_csum_fold (ucast (c :: u16)) = c"
proof -
  have "unat c < 65536"
    using unsigned_less [of c] by simp
  moreover from this have "unat (ucast c :: u64) = unat c"
    by (simp add: unsigned_ucast_eq take_bit_nat_eq_self)
  ultimately have "unat (ip_csum_fold (ucast c)) = unat c"
    unfolding ip_csum_fold_unat(1) by simp
  then show ?thesis
    by (simp only: word_unat_eq_iff)
qed

lemma adjust_same_nat:
  fixes C a0 a1 :: nat
  assumes "C < 65536" and "a0 < 2 ^ 64" and "a1 < 2 ^ 64"
  defines "r1 \<equiv> (if C + a0 < 2 ^ 64 then C + a0 else C + a0 - (2 ^ 64 - 1))"
  defines "r2 \<equiv> (if r1 + a1 < 2 ^ 64 then r1 + a1 else r1 + a1 - (2 ^ 64 - 1))"
  defines "r3 \<equiv> (if a0 \<le> r2 then r2 - a0 else r2 + (2 ^ 64 - 1) - a0)"
  defines "r4 \<equiv> (if a1 \<le> r3 then r3 - a1 else r3 + (2 ^ 64 - 1) - a1)"
  shows "r4 = C"
  using assms(1-3) unfolding r4_def r3_def r2_def r1_def
  by (auto split: if_splits)

lemma nat66_csum_adjust_same:
  "nat66_csum_adjust c a a = c"
proof -
  let ?r1 = "ip_csum_sub_even (ucast c) (fst a)"
  let ?r2 = "ip_csum_sub_even ?r1 (snd a)"
  let ?r3 = "ip_csum_add_even ?r2 (fst a)"
  let ?r4 = "ip_csum_add_even ?r3 (snd a)"
  have b: "unat c < 65536" "unat (fst a) < 2 ^ 64" "unat (snd a) < 2 ^ 64"
    using unsigned_less [of c] unsigned_less [of "fst a"] unsigned_less [of "snd a"] by simp_all
  have c: "unat (ucast c :: u64) = unat c"
    using b(1) by (simp add: unsigned_ucast_eq take_bit_nat_eq_self)
  have "unat ?r4 = unat c"
    unfolding unat_ip_csum_add_even ip_csum_sub_even_def unat_ip_csum_with_carry c
    by (rule adjust_same_nat [OF b])
  then have "?r4 = ucast c"
    using c by (simp only: word_unat_eq_iff)
  then show ?thesis
    by (simp add: nat66_csum_adjust_def Let_def ip_csum_fold_ucast)
qed

















lemma unat_ucast_u16_u64:
  "unat (ucast (c :: u16) :: u64) = unat c"
proof -
  have "unat c < 65536"
    using unsigned_less [of c] by simp
  then show ?thesis
    by (simp add: unsigned_ucast_eq take_bit_nat_eq_self)
qed

lemma ip_csum_with_carry_cong:
  "\<exists>k::int. int (unat (ip_csum_with_carry s x)) = int (unat s) + int (unat x) + 65535 * k"
proof (cases "unat s + unat x < 2 ^ 64")
  case True
  then have "int (unat (ip_csum_with_carry s x)) = int (unat s) + int (unat x) + 65535 * 0"
    unfolding unat_ip_csum_with_carry by simp
  then show ?thesis ..
next
  case False
  then have "int (unat (ip_csum_with_carry s x)) = int (unat s) + int (unat x) + 65535 * (- 281479271743489)"
    unfolding unat_ip_csum_with_carry by simp
  then show ?thesis ..
qed

lemma ip_csum_add_even_cong:
  "\<exists>k::int. int (unat (ip_csum_add_even c x)) = int (unat c) - int (unat x) + 65535 * k"
proof (cases "unat x \<le> unat c")
  case True
  then have "int (unat (ip_csum_add_even c x)) = int (unat c) - int (unat x) + 65535 * 0"
    unfolding unat_ip_csum_add_even by simp
  then show ?thesis ..
next
  case False
  have "unat x < 2 ^ 64"
    using unsigned_less [of x] by simp
  then have "int (unat (ip_csum_add_even c x)) = int (unat c) - int (unat x) + 65535 * 281479271743489"
    using False unfolding unat_ip_csum_add_even by simp
  then show ?thesis ..
qed

lemma nat66_csum_adjust_cong:
  "\<exists>k::int. int (unat (nat66_csum_adjust c old new)) =
     int (unat c) + int (unat (fst old)) + int (unat (snd old))
       - int (unat (fst new)) - int (unat (snd new)) + 65535 * k"
proof -
  let ?r1 = "ip_csum_sub_even (ucast c) (fst old)"
  let ?r2 = "ip_csum_sub_even ?r1 (snd old)"
  let ?r3 = "ip_csum_add_even ?r2 (fst new)"
  let ?r4 = "ip_csum_add_even ?r3 (snd new)"
  note c = unat_ucast_u16_u64 [of c]
  obtain k1 :: int where k1: "int (unat ?r1) = int (unat c) + int (unat (fst old)) + 65535 * k1"
    using ip_csum_with_carry_cong [of "ucast c" "fst old"] unfolding ip_csum_sub_even_def c by blast
  obtain k2 :: int where k2: "int (unat ?r2) = int (unat ?r1) + int (unat (snd old)) + 65535 * k2"
    using ip_csum_with_carry_cong [of ?r1 "snd old"] unfolding ip_csum_sub_even_def by blast
  obtain k3 :: int where k3: "int (unat ?r3) = int (unat ?r2) - int (unat (fst new)) + 65535 * k3"
    using ip_csum_add_even_cong [of ?r2 "fst new"] by blast
  obtain k4 :: int where k4: "int (unat ?r4) = int (unat ?r3) - int (unat (snd new)) + 65535 * k4"
    using ip_csum_add_even_cong [of ?r3 "snd new"] by blast
  obtain k5 :: int where k5: "int (unat ?r4) - int (unat (ip_csum_fold ?r4)) = 65535 * k5"
    using ip_csum_fold_cong [of ?r4] by (auto simp: dvd_def)
  have "int (unat (ip_csum_fold ?r4)) =
     int (unat c) + int (unat (fst old)) + int (unat (snd old))
       - int (unat (fst new)) - int (unat (snd new)) + 65535 * (k1 + k2 + k3 + k4 - k5)"
    using k1 k2 k3 k4 k5 by (simp add: algebra_simps)
  then show ?thesis
    unfolding nat66_csum_adjust_def Let_def ..
qed

















lemma rewrite_same:
  assumes "e_addr sm0 = load_address d src_address_offset"
  shows "nat66_in2out_rewrite p off sm0 d = d"
proof -
  have "store_u16 d a (load_u16 d a) = d" for a
    unfolding store_u16_def load_u16_def by (rule store_le_load_le) simp
  then show ?thesis
    unfolding nat66_in2out_rewrite_def assms Let_def
    by (simp add: nat66_csum_adjust_same store_address_load_address split: option.splits)
qed

lemma nat66_checksum0_explicit:
  assumes "(p = 17 \<and> a = unat off + 6) \<or> (p = 6 \<and> a = unat off + 16) \<or> (p = 58 \<and> a = unat off + 2)"
  shows "nat66_checksum0 p off = Some a"
  using assms
  by (auto simp: nat66_checksum0_def IP_PROTOCOL_UDP_def IP_PROTOCOL_TCP_def IP_PROTOCOL_ICMP6_def
      udp_checksum_offset_def tcp_checksum_offset_def icmp_checksum_offset_def)

lemma nat66_checksum0_cases:
  assumes "nat66_checksum0 p off = Some a"
  shows "(p = 17 \<and> a = unat off + 6) \<or> (p = 6 \<and> a = unat off + 16) \<or> (p = 58 \<and> a = unat off + 2)"
  using assms
  by (auto simp: nat66_checksum0_def IP_PROTOCOL_UDP_def IP_PROTOCOL_TCP_def IP_PROTOCOL_ICMP6_def
      udp_checksum_offset_def tcp_checksum_offset_def icmp_checksum_offset_def split: if_splits)

lemma nat66_csum_adjust_chain:
  "nat66_csum_adjust c (load_address d src_address_offset) e =
     ip_csum_fold (ip_csum_add_even (ip_csum_add_even
       (ip_csum_sub_even (ip_csum_sub_even (ucast c) (load_u64 d 8)) (load_u64 d 16)) (fst e)) (snd e))"
  by (simp add: nat66_csum_adjust_def Let_def load_address_def src_address_offset_def)

lemma rewrite_src_bytes:
  assumes "k < 8"
  shows "nat66_in2out_rewrite p off sm0 d (8 + k) = ucast (drop_bit (8 * k) (fst (e_addr sm0)))"
    and "nat66_in2out_rewrite p off sm0 d (16 + k) = ucast (drop_bit (8 * k) (snd (e_addr sm0)))"
  using assms
  by (simp_all add: nat66_in2out_rewrite_def Let_def store_address_apply src_address_offset_def)

lemma rewrite_frame_explicit:
  assumes "\<not> (8 \<le> i \<and> i < 24)"
    and "\<not> (p = 17 \<and> unat off + 6 \<le> i \<and> i < unat off + 8)"
    and "\<not> (p = 6 \<and> unat off + 16 \<le> i \<and> i < unat off + 18)"
    and "\<not> (p = 58 \<and> unat off + 2 \<le> i \<and> i < unat off + 4)"
  shows "nat66_in2out_rewrite p off sm0 d i = d i"
proof (rule rewrite_frame)
  show "\<not> (src_address_offset \<le> i \<and> i < src_address_offset + 16)"
    using assms(1) by (simp add: src_address_offset_def)
  show "\<not> (a \<le> i \<and> i < a + 2)" if "nat66_checksum0 p off = Some a" for a
    using nat66_checksum0_cases [OF that] assms(2-4) by auto
qed

lemma rewrite_checksum_explicit:
  assumes "(p = 17 \<and> a = unat off + 6) \<or> (p = 6 \<and> a = unat off + 16) \<or> (p = 58 \<and> a = unat off + 2)"
    and "a + 2 \<le> 8 \<or> 24 \<le> a"
  shows "load_u16 (nat66_in2out_rewrite p off sm0 d) a =
     ip_csum_fold (ip_csum_add_even (ip_csum_add_even
       (ip_csum_sub_even (ip_csum_sub_even (ucast (load_u16 d a)) (load_u64 d 8)) (load_u64 d 16))
       (fst (e_addr sm0))) (snd (e_addr sm0)))"
proof -
  have "a + 2 \<le> src_address_offset \<or> src_address_offset + 16 \<le> a"
    using assms(2) by (simp add: src_address_offset_def)
  from rewrite_checksum [OF nat66_checksum0_explicit [OF assms(1)] this]
  show ?thesis
    by (simp only: nat66_csum_adjust_chain)
qed

section \<open>The example packets\<close>

lemma example_udp_valid_packet:
  "packet_parse example_env (buffers (example_state (example_buffers_of example_udp_valid)) 1) = Some (17, 40, 0)"
  "packet_not_translate example_env (buffers (example_state (example_buffers_of example_udp_valid)) 1) = 0"
  "packet_mapping example_env (buffers (example_state (example_buffers_of example_udp_valid)) 1) = Some (4, example_mapping)"
  "load_u64 (data (buffers (example_state (example_buffers_of example_udp_valid)) 1)) 8 = 0xfd"
  "load_u64 (data (buffers (example_state (example_buffers_of example_udp_valid)) 1)) 16 = 0x0a00000000000000"
  "load_u16 (data (buffers (example_state (example_buffers_of example_udp_valid)) 1)) 46 = 0x435a"
  "data (buffers (example_state (example_buffers_of example_udp_valid)) 1) 40 = 0x12"
  by (simp_all add: example_packet_simps)

lemma example_udp_valid_chain:
  "ip_csum_fold (ip_csum_add_even (ip_csum_add_even
     (ip_csum_sub_even (ip_csum_sub_even 0x435a 0xfd) 0x0a00000000000000)
     0x0000aa00b80d0120) 0x0b00000000000000) = 0xe028"
  by code_simp


lemma example_tcp_valid_packet:
  "packet_parse example_env (buffers (example_state (example_buffers_of example_tcp_valid)) 1) = Some (6, 40, 0)"
  "packet_not_translate example_env (buffers (example_state (example_buffers_of example_tcp_valid)) 1) = 0"
  "packet_mapping example_env (buffers (example_state (example_buffers_of example_tcp_valid)) 1) = Some (4, example_mapping)"
  "load_u64 (data (buffers (example_state (example_buffers_of example_tcp_valid)) 1)) 8 = 0xfd"
  "load_u64 (data (buffers (example_state (example_buffers_of example_tcp_valid)) 1)) 16 = 0x0a00000000000000"
  "load_u16 (data (buffers (example_state (example_buffers_of example_tcp_valid)) 1)) 56 = 0x9952"
  "data (buffers (example_state (example_buffers_of example_tcp_valid)) 1) 40 = 0x12"
  by (simp_all add: example_packet_simps)

lemma example_tcp_valid_chain:
  "ip_csum_fold (ip_csum_add_even (ip_csum_add_even
     (ip_csum_sub_even (ip_csum_sub_even 0x9952 0xfd) 0x0a00000000000000)
     0x0000aa00b80d0120) 0x0b00000000000000) = 0x3621"
  by code_simp


lemma example_icmp_valid_packet:
  "packet_parse example_env (buffers (example_state (example_buffers_of example_icmp_valid)) 1) = Some (58, 40, 0)"
  "packet_not_translate example_env (buffers (example_state (example_buffers_of example_icmp_valid)) 1) = 0"
  "packet_mapping example_env (buffers (example_state (example_buffers_of example_icmp_valid)) 1) = Some (4, example_mapping)"
  "load_u64 (data (buffers (example_state (example_buffers_of example_icmp_valid)) 1)) 8 = 0xfd"
  "load_u64 (data (buffers (example_state (example_buffers_of example_icmp_valid)) 1)) 16 = 0x0a00000000000000"
  "load_u16 (data (buffers (example_state (example_buffers_of example_icmp_valid)) 1)) 42 = 0xc342"
  "data (buffers (example_state (example_buffers_of example_icmp_valid)) 1) 40 = 0x80"
  by (simp_all add: example_packet_simps)

lemma example_icmp_valid_chain:
  "ip_csum_fold (ip_csum_add_even (ip_csum_add_even
     (ip_csum_sub_even (ip_csum_sub_even 0xc342 0xfd) 0x0a00000000000000)
     0x0000aa00b80d0120) 0x0b00000000000000) = 0x6011"
  by code_simp





lemma example_udp_packet:
  "packet_parse example_env (buffers (example_state (example_buffers_of example_udp)) 1) = Some (17, 40, 0)"
  "packet_not_translate example_env (buffers (example_state (example_buffers_of example_udp)) 1) = 0"
  "packet_mapping example_env (buffers (example_state (example_buffers_of example_udp)) 1) = Some (4, example_mapping)"
  "load_u64 (data (buffers (example_state (example_buffers_of example_udp)) 1)) 8 = 0xfd"
  "load_u64 (data (buffers (example_state (example_buffers_of example_udp)) 1)) 16 = 0x0a00000000000000"
  "load_u16 (data (buffers (example_state (example_buffers_of example_udp)) 1)) 46 = 0"
  "data (buffers (example_state (example_buffers_of example_udp)) 1) 40 = 0x12"
  by (simp_all add: example_packet_simps)

lemma example_udp_chain:
  "ip_csum_fold (ip_csum_add_even (ip_csum_add_even
     (ip_csum_sub_even (ip_csum_sub_even 0 0xfd) 0x0a00000000000000)
     0x0000aa00b80d0120) 0x0b00000000000000) = 0x9cce"
  by code_simp

lemma example_mapping_e_addr:
  "fst (e_addr example_mapping) = 0x0000aa00b80d0120" "snd (e_addr example_mapping) = 0x0b00000000000000"
  "e_addr example_mapping = example_e_addr"
  by (simp_all add: example_mapping_def example_e_addr_def)




section \<open>Properties of the node\<close>

text \<open>
  C5: a packet that parses and is not translated, because the classifier returns "do
  not translate" (no route in the ingress FIB, or an interface that is not a
  registered outside interface) or because the mapping lookup for its source address
  misses, has the disposition \<open>NAT66_IN2OUT_NEXT_IP6_LOOKUP\<close> (forward); no buffer
  changes, so its bytes are the same; the per-mapping counters are the same and no
  call of the per-mapping counter increment is made.
\<close>

theorem nat66_in2out_untranslated_forwarded:
  assumes "packet_parse e (buffers st bi0) = Some (p, off, fr)"
    and "packet_not_translate e (buffers st bi0) \<noteq> 0 \<or> packet_mapping e (buffers st bi0) = None"
  shows "snd (nat66_in2out_body e st bi0) = NAT66_IN2OUT_NEXT_IP6_LOOKUP
         \<and> buffers (fst (nat66_in2out_body e st bi0)) = buffers st
         \<and> session_counters (fst (nat66_in2out_body e st bi0)) = session_counters st
         \<and> (\<exists>cs. calls (fst (nat66_in2out_body e st bi0)) = calls st @ cs
               \<and> (\<forall>c \<in> set cs. \<forall>t i n l. c \<noteq> Vlib_increment_combined_counter t i n l))"
proof -
  note r = packet_not_translated [OF assms]
  have "buffers (fst (nat66_in2out_body e st bi0)) = buffers st"
    by (simp add: body_buffers r(2))
  moreover have "session_counters (fst (nat66_in2out_body e st bi0)) = session_counters st"
    by (simp add: body_session_counters r(3))
  moreover have "\<forall>c \<in> set (r_calls (nat66_in2out_packet e (buffers st bi0))).
                   \<forall>t i n l. c \<noteq> Vlib_increment_combined_counter t i n l"
    using r(4) by blast
  ultimately show ?thesis
    by (simp add: body_next0 r(1) body_calls)
qed

theorem nat66_in2out_untranslated_forwarded_witness:
  "packet_parse example_env (buffers (example_state example_buffers) 3) = Some (17, 40, 0)
   \<and> packet_not_translate example_env (buffers (example_state example_buffers) 3) \<noteq> 0
   \<and> snd (nat66_in2out_body example_env (example_state example_buffers) 3) = NAT66_IN2OUT_NEXT_IP6_LOOKUP
   \<and> buffers (fst (nat66_in2out_body example_env (example_state example_buffers) 3)) = example_buffers
   \<and> session_counters (fst (nat66_in2out_body example_env (example_state example_buffers) 3)) =
        session_counters (example_state example_buffers)"
proof -
  have h1: "packet_parse example_env (buffers (example_state example_buffers) 3) = Some (17, 40, 0)"
    by (simp add: example_packet_simps)
  have h2: "packet_not_translate example_env (buffers (example_state example_buffers) 3) \<noteq> 0"
    by (simp add: example_packet_simps)
  have b: "buffers (example_state example_buffers) = example_buffers"
    by (simp add: example_state_def)
  from nat66_in2out_untranslated_forwarded [OF h1 disjI1 [OF h2]] h1 h2 show ?thesis
    unfolding b by blast
qed


text \<open>
  C2: for a packet that parses, is eligible and has a mapping, bytes 8 to 23 (the
  source address field) hold afterwards the two halves of the mapping's outside
  address, least significant byte first; every byte outside bytes 8 to 23 is
  unchanged, except the two bytes of the checksum field at transport offset 6 when
  the protocol is UDP (17), at transport offset 16 when it is TCP (6) and at transport
  offset 2 when it is ICMPv6 (58): for every other protocol only the source address
  changes. For these three protocols the field (when it does not overlap the source
  address) holds the fold of the value read there plus the two old halves minus the
  two new halves. Nothing else of the buffer and no other buffer changes.
\<close>

theorem nat66_in2out_rewrite_frame:
  assumes "packet_parse e (buffers st bi0) = Some (p, off, fr)"
    and "packet_not_translate e (buffers st bi0) = 0"
    and "packet_mapping e (buffers st bi0) = Some (idx, sm0)"
  shows "(\<forall>k<8. data (buffers (fst (nat66_in2out_body e st bi0)) bi0) (8 + k) =
                  ucast (drop_bit (8 * k) (fst (e_addr sm0)))
              \<and> data (buffers (fst (nat66_in2out_body e st bi0)) bi0) (16 + k) =
                  ucast (drop_bit (8 * k) (snd (e_addr sm0))))
     \<and> load_address (data (buffers (fst (nat66_in2out_body e st bi0)) bi0)) src_address_offset = e_addr sm0
     \<and> (\<forall>i. \<not> (8 \<le> i \<and> i < 24)
             \<and> \<not> (p = 17 \<and> unat off + 6 \<le> i \<and> i < unat off + 8)
             \<and> \<not> (p = 6 \<and> unat off + 16 \<le> i \<and> i < unat off + 18)
             \<and> \<not> (p = 58 \<and> unat off + 2 \<le> i \<and> i < unat off + 4)
           \<longrightarrow> data (buffers (fst (nat66_in2out_body e st bi0)) bi0) i = data (buffers st bi0) i)
     \<and> (\<forall>a. ((p = 17 \<and> a = unat off + 6) \<or> (p = 6 \<and> a = unat off + 16) \<or> (p = 58 \<and> a = unat off + 2))
             \<and> (a + 2 \<le> 8 \<or> 24 \<le> a)
           \<longrightarrow> load_u16 (data (buffers (fst (nat66_in2out_body e st bi0)) bi0)) a =
                 ip_csum_fold (ip_csum_add_even (ip_csum_add_even
                   (ip_csum_sub_even
                      (ip_csum_sub_even (ucast (load_u16 (data (buffers st bi0)) a))
                         (load_u64 (data (buffers st bi0)) 8))
                      (load_u64 (data (buffers st bi0)) 16))
                   (fst (e_addr sm0))) (snd (e_addr sm0))))
     \<and> buffers (fst (nat66_in2out_body e st bi0)) =
         (buffers st)(bi0 := (buffers st bi0)\<lparr>data := data (buffers (fst (nat66_in2out_body e st bi0)) bi0)\<rparr>)"
proof -
  note r = packet_translated [OF assms]
  have d: "data (buffers (fst (nat66_in2out_body e st bi0)) bi0) =
             nat66_in2out_rewrite p off sm0 (data (buffers st bi0))"
    by (simp add: body_buffers r(2))
  have b: "buffers (fst (nat66_in2out_body e st bi0)) =
         (buffers st)(bi0 := (buffers st bi0)\<lparr>data := data (buffers (fst (nat66_in2out_body e st bi0)) bi0)\<rparr>)"
    unfolding d by (simp add: body_buffers r(2))
  have 1: "\<forall>k<8. nat66_in2out_rewrite p off sm0 (data (buffers st bi0)) (8 + k) =
                  ucast (drop_bit (8 * k) (fst (e_addr sm0)))
              \<and> nat66_in2out_rewrite p off sm0 (data (buffers st bi0)) (16 + k) =
                  ucast (drop_bit (8 * k) (snd (e_addr sm0)))"
    using rewrite_src_bytes by blast
  have 3: "\<forall>i. \<not> (8 \<le> i \<and> i < 24)
             \<and> \<not> (p = 17 \<and> unat off + 6 \<le> i \<and> i < unat off + 8)
             \<and> \<not> (p = 6 \<and> unat off + 16 \<le> i \<and> i < unat off + 18)
             \<and> \<not> (p = 58 \<and> unat off + 2 \<le> i \<and> i < unat off + 4)
           \<longrightarrow> nat66_in2out_rewrite p off sm0 (data (buffers st bi0)) i = data (buffers st bi0) i"
    using rewrite_frame_explicit by blast
  have 4: "\<forall>a. ((p = 17 \<and> a = unat off + 6) \<or> (p = 6 \<and> a = unat off + 16) \<or> (p = 58 \<and> a = unat off + 2))
             \<and> (a + 2 \<le> 8 \<or> 24 \<le> a)
           \<longrightarrow> load_u16 (nat66_in2out_rewrite p off sm0 (data (buffers st bi0))) a =
                 ip_csum_fold (ip_csum_add_even (ip_csum_add_even
                   (ip_csum_sub_even
                      (ip_csum_sub_even (ucast (load_u16 (data (buffers st bi0)) a))
                         (load_u64 (data (buffers st bi0)) 8))
                      (load_u64 (data (buffers st bi0)) 16))
                   (fst (e_addr sm0))) (snd (e_addr sm0)))"
    using rewrite_checksum_explicit by blast
  show ?thesis
    using 1 3 4 b unfolding d rewrite_src by blast
qed

theorem nat66_in2out_rewrite_frame_witness:
  "(packet_parse example_env (buffers (example_state (example_buffers_of example_udp_valid)) 1) = Some (17, 40, 0)
   \<and> packet_not_translate example_env (buffers (example_state (example_buffers_of example_udp_valid)) 1) = 0
   \<and> packet_mapping example_env (buffers (example_state (example_buffers_of example_udp_valid)) 1) = Some (4, example_mapping)
   \<and> load_address (data (buffers (fst (nat66_in2out_body example_env (example_state (example_buffers_of example_udp_valid)) 1)) 1)) src_address_offset = example_e_addr
   \<and> (data (buffers (fst (nat66_in2out_body example_env (example_state (example_buffers_of example_udp_valid)) 1)) 1)) 40 = 0x12
   \<and> load_u16 (data (buffers (fst (nat66_in2out_body example_env (example_state (example_buffers_of example_udp_valid)) 1)) 1)) 46 = 0xe028)
   \<and> (packet_parse example_env (buffers (example_state (example_buffers_of example_tcp_valid)) 1) = Some (6, 40, 0)
   \<and> packet_not_translate example_env (buffers (example_state (example_buffers_of example_tcp_valid)) 1) = 0
   \<and> packet_mapping example_env (buffers (example_state (example_buffers_of example_tcp_valid)) 1) = Some (4, example_mapping)
   \<and> load_address (data (buffers (fst (nat66_in2out_body example_env (example_state (example_buffers_of example_tcp_valid)) 1)) 1)) src_address_offset = example_e_addr
   \<and> (data (buffers (fst (nat66_in2out_body example_env (example_state (example_buffers_of example_tcp_valid)) 1)) 1)) 40 = 0x12
   \<and> load_u16 (data (buffers (fst (nat66_in2out_body example_env (example_state (example_buffers_of example_tcp_valid)) 1)) 1)) 56 = 0x3621)
   \<and> (packet_parse example_env (buffers (example_state (example_buffers_of example_icmp_valid)) 1) = Some (58, 40, 0)
   \<and> packet_not_translate example_env (buffers (example_state (example_buffers_of example_icmp_valid)) 1) = 0
   \<and> packet_mapping example_env (buffers (example_state (example_buffers_of example_icmp_valid)) 1) = Some (4, example_mapping)
   \<and> load_address (data (buffers (fst (nat66_in2out_body example_env (example_state (example_buffers_of example_icmp_valid)) 1)) 1)) src_address_offset = example_e_addr
   \<and> (data (buffers (fst (nat66_in2out_body example_env (example_state (example_buffers_of example_icmp_valid)) 1)) 1)) 40 = 0x80
   \<and> load_u16 (data (buffers (fst (nat66_in2out_body example_env (example_state (example_buffers_of example_icmp_valid)) 1)) 1)) 42 = 0x6011)"
proof -
  have udp: "packet_parse example_env (buffers (example_state (example_buffers_of example_udp_valid)) 1) = Some (17, 40, 0)
   \<and> packet_not_translate example_env (buffers (example_state (example_buffers_of example_udp_valid)) 1) = 0
   \<and> packet_mapping example_env (buffers (example_state (example_buffers_of example_udp_valid)) 1) = Some (4, example_mapping)
   \<and> load_address (data (buffers (fst (nat66_in2out_body example_env (example_state (example_buffers_of example_udp_valid)) 1)) 1)) src_address_offset = example_e_addr
   \<and> (data (buffers (fst (nat66_in2out_body example_env (example_state (example_buffers_of example_udp_valid)) 1)) 1)) 40 = 0x12
   \<and> load_u16 (data (buffers (fst (nat66_in2out_body example_env (example_state (example_buffers_of example_udp_valid)) 1)) 1)) 46 = 0xe028"
  proof -
    note h = example_udp_valid_packet
    note t = nat66_in2out_rewrite_frame [OF h(1-3)]
    have 1: "load_address (data (buffers (fst (nat66_in2out_body example_env (example_state (example_buffers_of example_udp_valid)) 1)) 1)) src_address_offset = example_e_addr"
      using t by (simp add: example_mapping_e_addr)
    have "(data (buffers (fst (nat66_in2out_body example_env (example_state (example_buffers_of example_udp_valid)) 1)) 1)) 40 = (data (buffers (example_state (example_buffers_of example_udp_valid)) 1)) 40"
      using t by simp
    then have 2: "(data (buffers (fst (nat66_in2out_body example_env (example_state (example_buffers_of example_udp_valid)) 1)) 1)) 40 = 0x12"
      by (simp only: h(7))
    have "load_u16 (data (buffers (fst (nat66_in2out_body example_env (example_state (example_buffers_of example_udp_valid)) 1)) 1)) 46 =
        ip_csum_fold (ip_csum_add_even (ip_csum_add_even
          (ip_csum_sub_even
             (ip_csum_sub_even (ucast (load_u16 (data (buffers (example_state (example_buffers_of example_udp_valid)) 1)) 46)) (load_u64 (data (buffers (example_state (example_buffers_of example_udp_valid)) 1)) 8))
             (load_u64 (data (buffers (example_state (example_buffers_of example_udp_valid)) 1)) 16))
          (fst (e_addr example_mapping))) (snd (e_addr example_mapping)))"
      using t by simp
    then have 3: "load_u16 (data (buffers (fst (nat66_in2out_body example_env (example_state (example_buffers_of example_udp_valid)) 1)) 1)) 46 = 0xe028"
      unfolding h(4-6) example_mapping_e_addr(1,2) by (simp add: example_udp_valid_chain)
    from h(1-3) 1 2 3 show ?thesis by blast
  qed
  have tcp: "packet_parse example_env (buffers (example_state (example_buffers_of example_tcp_valid)) 1) = Some (6, 40, 0)
   \<and> packet_not_translate example_env (buffers (example_state (example_buffers_of example_tcp_valid)) 1) = 0
   \<and> packet_mapping example_env (buffers (example_state (example_buffers_of example_tcp_valid)) 1) = Some (4, example_mapping)
   \<and> load_address (data (buffers (fst (nat66_in2out_body example_env (example_state (example_buffers_of example_tcp_valid)) 1)) 1)) src_address_offset = example_e_addr
   \<and> (data (buffers (fst (nat66_in2out_body example_env (example_state (example_buffers_of example_tcp_valid)) 1)) 1)) 40 = 0x12
   \<and> load_u16 (data (buffers (fst (nat66_in2out_body example_env (example_state (example_buffers_of example_tcp_valid)) 1)) 1)) 56 = 0x3621"
  proof -
    note h = example_tcp_valid_packet
    note t = nat66_in2out_rewrite_frame [OF h(1-3)]
    have 1: "load_address (data (buffers (fst (nat66_in2out_body example_env (example_state (example_buffers_of example_tcp_valid)) 1)) 1)) src_address_offset = example_e_addr"
      using t by (simp add: example_mapping_e_addr)
    have "(data (buffers (fst (nat66_in2out_body example_env (example_state (example_buffers_of example_tcp_valid)) 1)) 1)) 40 = (data (buffers (example_state (example_buffers_of example_tcp_valid)) 1)) 40"
      using t by simp
    then have 2: "(data (buffers (fst (nat66_in2out_body example_env (example_state (example_buffers_of example_tcp_valid)) 1)) 1)) 40 = 0x12"
      by (simp only: h(7))
    have "load_u16 (data (buffers (fst (nat66_in2out_body example_env (example_state (example_buffers_of example_tcp_valid)) 1)) 1)) 56 =
        ip_csum_fold (ip_csum_add_even (ip_csum_add_even
          (ip_csum_sub_even
             (ip_csum_sub_even (ucast (load_u16 (data (buffers (example_state (example_buffers_of example_tcp_valid)) 1)) 56)) (load_u64 (data (buffers (example_state (example_buffers_of example_tcp_valid)) 1)) 8))
             (load_u64 (data (buffers (example_state (example_buffers_of example_tcp_valid)) 1)) 16))
          (fst (e_addr example_mapping))) (snd (e_addr example_mapping)))"
      using t by simp
    then have 3: "load_u16 (data (buffers (fst (nat66_in2out_body example_env (example_state (example_buffers_of example_tcp_valid)) 1)) 1)) 56 = 0x3621"
      unfolding h(4-6) example_mapping_e_addr(1,2) by (simp add: example_tcp_valid_chain)
    from h(1-3) 1 2 3 show ?thesis by blast
  qed
  have icmp: "packet_parse example_env (buffers (example_state (example_buffers_of example_icmp_valid)) 1) = Some (58, 40, 0)
   \<and> packet_not_translate example_env (buffers (example_state (example_buffers_of example_icmp_valid)) 1) = 0
   \<and> packet_mapping example_env (buffers (example_state (example_buffers_of example_icmp_valid)) 1) = Some (4, example_mapping)
   \<and> load_address (data (buffers (fst (nat66_in2out_body example_env (example_state (example_buffers_of example_icmp_valid)) 1)) 1)) src_address_offset = example_e_addr
   \<and> (data (buffers (fst (nat66_in2out_body example_env (example_state (example_buffers_of example_icmp_valid)) 1)) 1)) 40 = 0x80
   \<and> load_u16 (data (buffers (fst (nat66_in2out_body example_env (example_state (example_buffers_of example_icmp_valid)) 1)) 1)) 42 = 0x6011"
  proof -
    note h = example_icmp_valid_packet
    note t = nat66_in2out_rewrite_frame [OF h(1-3)]
    have 1: "load_address (data (buffers (fst (nat66_in2out_body example_env (example_state (example_buffers_of example_icmp_valid)) 1)) 1)) src_address_offset = example_e_addr"
      using t by (simp add: example_mapping_e_addr)
    have "(data (buffers (fst (nat66_in2out_body example_env (example_state (example_buffers_of example_icmp_valid)) 1)) 1)) 40 = (data (buffers (example_state (example_buffers_of example_icmp_valid)) 1)) 40"
      using t by simp
    then have 2: "(data (buffers (fst (nat66_in2out_body example_env (example_state (example_buffers_of example_icmp_valid)) 1)) 1)) 40 = 0x80"
      by (simp only: h(7))
    have "load_u16 (data (buffers (fst (nat66_in2out_body example_env (example_state (example_buffers_of example_icmp_valid)) 1)) 1)) 42 =
        ip_csum_fold (ip_csum_add_even (ip_csum_add_even
          (ip_csum_sub_even
             (ip_csum_sub_even (ucast (load_u16 (data (buffers (example_state (example_buffers_of example_icmp_valid)) 1)) 42)) (load_u64 (data (buffers (example_state (example_buffers_of example_icmp_valid)) 1)) 8))
             (load_u64 (data (buffers (example_state (example_buffers_of example_icmp_valid)) 1)) 16))
          (fst (e_addr example_mapping))) (snd (e_addr example_mapping)))"
      using t by simp
    then have 3: "load_u16 (data (buffers (fst (nat66_in2out_body example_env (example_state (example_buffers_of example_icmp_valid)) 1)) 1)) 42 = 0x6011"
      unfolding h(4-6) example_mapping_e_addr(1,2) by (simp add: example_icmp_valid_chain)
    from h(1-3) 1 2 3 show ?thesis by blast
  qed
  from udp tcp icmp show ?thesis by blast
qed

text \<open>
  C9: for a translated UDP, TCP or ICMPv6 packet whose checksum field (at transport
  offset 6, 16 or 2) holds zero, the field holds afterwards the fold of zero plus the
  two halves of the packet's source address minus the two halves of the mapping's
  outside address, each with end-around carry: the value zero is adjusted and written
  like any other value. The written value is congruent modulo 65535 to the sum of the
  old halves minus the sum of the new halves.
\<close>

theorem nat66_in2out_zero_checksum_adjusted:
  assumes "packet_parse e (buffers st bi0) = Some (p, off, fr)"
    and "packet_not_translate e (buffers st bi0) = 0"
    and "packet_mapping e (buffers st bi0) = Some (idx, sm0)"
    and "(p = 17 \<and> a = unat off + 6) \<or> (p = 6 \<and> a = unat off + 16) \<or> (p = 58 \<and> a = unat off + 2)"
    and "a + 2 \<le> 8 \<or> 24 \<le> a"
    and "load_u16 (data (buffers st bi0)) a = 0"
  shows "load_u16 (data (buffers (fst (nat66_in2out_body e st bi0)) bi0)) a =
           ip_csum_fold (ip_csum_add_even (ip_csum_add_even
             (ip_csum_sub_even
                (ip_csum_sub_even 0 (load_u64 (data (buffers st bi0)) 8))
                (load_u64 (data (buffers st bi0)) 16))
             (fst (e_addr sm0))) (snd (e_addr sm0)))
     \<and> (\<exists>k::int. int (unat (load_u16 (data (buffers (fst (nat66_in2out_body e st bi0)) bi0)) a)) =
           int (unat (load_u64 (data (buffers st bi0)) 8)) + int (unat (load_u64 (data (buffers st bi0)) 16))
           - int (unat (fst (e_addr sm0))) - int (unat (snd (e_addr sm0))) + 65535 * k)"
proof -
  note r = packet_translated [OF assms(1-3)]
  have d: "data (buffers (fst (nat66_in2out_body e st bi0)) bi0) =
             nat66_in2out_rewrite p off sm0 (data (buffers st bi0))"
    by (simp add: body_buffers r(2))
  have v: "load_u16 (nat66_in2out_rewrite p off sm0 (data (buffers st bi0))) a =
           ip_csum_fold (ip_csum_add_even (ip_csum_add_even
             (ip_csum_sub_even
                (ip_csum_sub_even 0 (load_u64 (data (buffers st bi0)) 8))
                (load_u64 (data (buffers st bi0)) 16))
             (fst (e_addr sm0))) (snd (e_addr sm0)))"
    using rewrite_checksum_explicit [OF assms(4,5), of sm0 "data (buffers st bi0)"] assms(6) by simp
  have c: "ip_csum_fold (ip_csum_add_even (ip_csum_add_even
             (ip_csum_sub_even
                (ip_csum_sub_even 0 (load_u64 (data (buffers st bi0)) 8))
                (load_u64 (data (buffers st bi0)) 16))
             (fst (e_addr sm0))) (snd (e_addr sm0))) =
           nat66_csum_adjust 0 (load_u64 (data (buffers st bi0)) 8, load_u64 (data (buffers st bi0)) 16) (e_addr sm0)"
    by (simp add: nat66_csum_adjust_def Let_def)
  obtain k :: int where "int (unat (nat66_csum_adjust 0
        (load_u64 (data (buffers st bi0)) 8, load_u64 (data (buffers st bi0)) 16) (e_addr sm0))) =
      int (unat (0::u16)) + int (unat (load_u64 (data (buffers st bi0)) 8))
        + int (unat (load_u64 (data (buffers st bi0)) 16))
        - int (unat (fst (e_addr sm0))) - int (unat (snd (e_addr sm0))) + 65535 * k"
    using nat66_csum_adjust_cong [of 0 "(load_u64 (data (buffers st bi0)) 8, load_u64 (data (buffers st bi0)) 16)" "e_addr sm0"]
    by auto
  then have "\<exists>k::int. int (unat (nat66_csum_adjust 0
        (load_u64 (data (buffers st bi0)) 8, load_u64 (data (buffers st bi0)) 16) (e_addr sm0))) =
      int (unat (load_u64 (data (buffers st bi0)) 8)) + int (unat (load_u64 (data (buffers st bi0)) 16))
        - int (unat (fst (e_addr sm0))) - int (unat (snd (e_addr sm0))) + 65535 * k"
    by auto
  then show ?thesis
    unfolding d v c by simp
qed

theorem nat66_in2out_zero_checksum_adjusted_witness:
  "packet_parse example_env (buffers (example_state (example_buffers_of example_udp)) 1) = Some (17, 40, 0)
   \<and> packet_not_translate example_env (buffers (example_state (example_buffers_of example_udp)) 1) = 0
   \<and> packet_mapping example_env (buffers (example_state (example_buffers_of example_udp)) 1) = Some (4, example_mapping)
   \<and> load_u16 (data (buffers (example_state (example_buffers_of example_udp)) 1)) 46 = 0
   \<and> load_u16 (data (buffers (fst (nat66_in2out_body example_env (example_state (example_buffers_of example_udp)) 1)) 1)) 46 = 0x9cce"
proof -
  note h = example_udp_packet
  have a: "(17 = (17::u8) \<and> 46 = unat (40::u16) + 6) \<or> (17 = (6::u8) \<and> 46 = unat (40::u16) + 16)
           \<or> (17 = (58::u8) \<and> 46 = unat (40::u16) + 2)"
    by simp
  have b: "46 + 2 \<le> (8::nat) \<or> 24 \<le> (46::nat)"
    by simp
  note t = nat66_in2out_zero_checksum_adjusted [OF h(1-3) a b h(6)]
  then have "load_u16 (data (buffers (fst (nat66_in2out_body example_env (example_state (example_buffers_of example_udp)) 1)) 1)) 46 =
        ip_csum_fold (ip_csum_add_even (ip_csum_add_even
          (ip_csum_sub_even (ip_csum_sub_even 0 (load_u64 (data (buffers (example_state (example_buffers_of example_udp)) 1)) 8)) (load_u64 (data (buffers (example_state (example_buffers_of example_udp)) 1)) 16))
          (fst (e_addr example_mapping))) (snd (e_addr example_mapping)))"
    by (rule conjunct1)
  then have "load_u16 (data (buffers (fst (nat66_in2out_body example_env (example_state (example_buffers_of example_udp)) 1)) 1)) 46 = 0x9cce"
    unfolding h(4,5) example_mapping_e_addr(1,2) by (simp add: example_udp_chain)
  with h(1-3,6) show ?thesis by blast
qed

lemma ucast_of_nat_u32_u64:
  assumes "n < 2 ^ 32"
  shows "(ucast (of_nat n :: u32) :: u64) = of_nat n"
  using assms by (simp add: unsigned_of_nat take_bit_nat_eq_self)

lemma example_dispositions:
  "nat66_in2out_dispositions example_env
     ((example_state example_buffers)\<lparr>next_index := NAT66_IN2OUT_NEXT_IP6_LOOKUP, pkts_processed := 0\<rparr>) [2, 3] =
   [NAT66_IN2OUT_NEXT_DROP, NAT66_IN2OUT_NEXT_IP6_LOOKUP]"
  by code_simp

text \<open>
  C4: for the packet at any position \<open>k\<close> of a batch, the disposition is
  \<open>NAT66_IN2OUT_NEXT_DROP\<close> exactly when the parser fails on the buffer as it is when
  the packet is reached. On a failure the buffer carries the error code of
  \<open>NAT66_IN2OUT_ERROR_UNKNOWN\<close>, under which the discard stage increments its counter
  by exactly 1; no call to the routing table or to the mapping table is made for the
  packet; and the packets after position \<open>k\<close> are processed from the state the
  dropped packet leaves, every packet of the batch getting a disposition.
\<close>

theorem nat66_in2out_drop_iff_parse_fails:
  assumes "k < length frame"
  shows "(nat66_in2out_dispositions e st frame ! k = NAT66_IN2OUT_NEXT_DROP \<longleftrightarrow>
            packet_parse e (buffers (nat66_in2out_loop e st (take k frame)) (frame ! k)) = None)
     \<and> (packet_parse e (buffers (nat66_in2out_loop e st (take k frame)) (frame ! k)) = None \<longrightarrow>
           error (buffers (nat66_in2out_loop e st (take (Suc k) frame)) (frame ! k)) =
             node_errors e NAT66_IN2OUT_ERROR_UNKNOWN
         \<and> (\<forall>counters.
               error_drop counters (buffers (nat66_in2out_loop e st (take (Suc k) frame)) (frame ! k))
                 (node_errors e NAT66_IN2OUT_ERROR_UNKNOWN) =
               counters (node_errors e NAT66_IN2OUT_ERROR_UNKNOWN) + 1)
         \<and> calls (nat66_in2out_loop e st (take (Suc k) frame)) =
             calls (nat66_in2out_loop e st (take k frame)))
     \<and> length (nat66_in2out_dispositions e st frame) = length frame
     \<and> drop (Suc k) (nat66_in2out_dispositions e st frame) =
         nat66_in2out_dispositions e (nat66_in2out_loop e st (take (Suc k) frame)) (drop (Suc k) frame)
     \<and> nat66_in2out_loop e st frame =
         nat66_in2out_loop e (nat66_in2out_loop e st (take (Suc k) frame)) (drop (Suc k) frame)"
proof -
  let ?stk = "nat66_in2out_loop e st (take k frame)"
  let ?st' = "nat66_in2out_loop e st (take (Suc k) frame)"
  let ?b = "buffers ?stk (frame ! k)"
  have st': "?st' = fst (nat66_in2out_body e ?stk (frame ! k))"
    by (rule loop_take_Suc [OF assms])
  have 1: "nat66_in2out_dispositions e st frame ! k = NAT66_IN2OUT_NEXT_DROP \<longleftrightarrow> packet_parse e ?b = None"
    by (simp add: dispositions_nth [OF assms] body_next0 packet_drop_iff)
  have 2: "error (buffers ?st' (frame ! k)) = node_errors e NAT66_IN2OUT_ERROR_UNKNOWN
           \<and> calls ?st' = calls ?stk" if "packet_parse e ?b = None"
    unfolding st' by (simp add: body_buffers body_calls packet_parse_fail [OF that])
  have 3: "nat66_in2out_loop e st frame = nat66_in2out_loop e ?st' (drop (Suc k) frame)"
    by (metis append_take_drop_id loop_append)
  show ?thesis
    using 1 2 3 by (simp add: dispositions_length dispositions_drop error_drop_def)
qed

theorem nat66_in2out_drop_iff_parse_fails_witness:
  "0 < length [2, 3 :: u32]
   \<and> packet_parse example_env (example_buffers 2) = None
   \<and> nat66_in2out_dispositions example_env
        ((example_state example_buffers)\<lparr>next_index := NAT66_IN2OUT_NEXT_IP6_LOOKUP, pkts_processed := 0\<rparr>)
        [2, 3] ! 0 = NAT66_IN2OUT_NEXT_DROP
   \<and> error (buffers (nat66_in2out_loop example_env
        ((example_state example_buffers)\<lparr>next_index := NAT66_IN2OUT_NEXT_IP6_LOOKUP, pkts_processed := 0\<rparr>)
        (take (Suc 0) [2, 3])) 2) = 32
   \<and> drop (Suc 0) (nat66_in2out_dispositions example_env
        ((example_state example_buffers)\<lparr>next_index := NAT66_IN2OUT_NEXT_IP6_LOOKUP, pkts_processed := 0\<rparr>)
        [2, 3]) = [NAT66_IN2OUT_NEXT_IP6_LOOKUP]"
proof -
  let ?st = "(example_state example_buffers)\<lparr>next_index := NAT66_IN2OUT_NEXT_IP6_LOOKUP, pkts_processed := 0\<rparr>"
  have h: "0 < length [2, 3 :: u32]"
    by simp
  have p: "packet_parse example_env (example_buffers 2) = None"
    by (simp add: example_packet_simps)
  have b: "buffers (nat66_in2out_loop example_env ?st (take 0 [2, 3])) ([2, 3] ! 0) = example_buffers 2"
    by (simp add: example_state_def)
  have c: "node_errors example_env NAT66_IN2OUT_ERROR_UNKNOWN = 32"
    by (simp add: example_env_def)
  have n: "[2, 3 :: u32] ! 0 = 2"
    by simp
  have d: "drop (Suc 0) (nat66_in2out_dispositions example_env ?st [2, 3]) = [NAT66_IN2OUT_NEXT_IP6_LOOKUP]"
    unfolding example_dispositions by simp
  from nat66_in2out_drop_iff_parse_fails [OF h, of example_env ?st] p
  have "nat66_in2out_dispositions example_env ?st [2, 3] ! 0 = NAT66_IN2OUT_NEXT_DROP
      \<and> error (buffers (nat66_in2out_loop example_env ?st (take (Suc 0) [2, 3])) ([2, 3] ! 0)) = 32"
    unfolding b c by blast
  then show ?thesis
    using h p d unfolding n by blast
qed

text \<open>
  C6: the node yields one disposition for each packet of the input vector, as many
  dispositions as packets, and returns the number of packets; each next stage
  receives, after what it held before, exactly the handles whose disposition it is,
  in input order.
\<close>

theorem nat66_in2out_node_one_disposition_each:
  "length (nat66_in2out_dispositions e (st\<lparr>next_index := cached, pkts_processed := 0\<rparr>) frame) = length frame
   \<and> snd (nat66_in2out_node e cached st frame) = length frame
   \<and> (\<forall>n. frames (fst (nat66_in2out_node e cached st frame)) n =
            frames st n @
            map fst (filter (\<lambda>x. snd x = n)
              (zip frame (nat66_in2out_dispositions e (st\<lparr>next_index := cached, pkts_processed := 0\<rparr>) frame))))"
  by (simp add: nat66_in2out_node_def Let_def dispositions_length loop_frames)

theorem nat66_in2out_node_one_disposition_each_witness:
  "snd (nat66_in2out_node example_env NAT66_IN2OUT_NEXT_IP6_LOOKUP (example_state example_buffers) [2, 3]) = 2
   \<and> frames (fst (nat66_in2out_node example_env NAT66_IN2OUT_NEXT_IP6_LOOKUP
        (example_state example_buffers) [2, 3])) NAT66_IN2OUT_NEXT_DROP = [2]
   \<and> frames (fst (nat66_in2out_node example_env NAT66_IN2OUT_NEXT_IP6_LOOKUP
        (example_state example_buffers) [2, 3])) NAT66_IN2OUT_NEXT_IP6_LOOKUP = [3]"
proof -
  have f: "frames (example_state example_buffers) n = []" for n
    by (simp add: example_state_def)
  from nat66_in2out_node_one_disposition_each
    [where e = example_env and st = "example_state example_buffers"
       and cached = NAT66_IN2OUT_NEXT_IP6_LOOKUP and frame = "[2, 3]"]
  show ?thesis
    unfolding example_dispositions f by simp
qed

text \<open>
  C7: for a batch (of fewer than 2^32 packets; the frame's vector count is a 16-bit
  field) the node's counter \<open>NAT66_IN2OUT_ERROR_IN2OUT_PACKETS\<close> increases by the
  number of dispositions that are not \<open>NAT66_IN2OUT_NEXT_DROP\<close>, no other node counter
  changes, and the node counter increment is called exactly once, as the last call of
  the batch. For a translated packet the per-mapping counter of the current thread
  and of the mapping's index increases by one packet and by the byte length of the
  buffer chain, and no other per-mapping counter changes.
\<close>

theorem nat66_in2out_counters:
  "(length frame < 2 ^ 32 \<longrightarrow>
      node_counters (fst (nat66_in2out_node e cached st frame)) =
        (node_counters st)(in2out_node_index e :=
           (node_counters st (in2out_node_index e))(NAT66_IN2OUT_ERROR_IN2OUT_PACKETS :=
              node_counters st (in2out_node_index e) NAT66_IN2OUT_ERROR_IN2OUT_PACKETS +
              of_nat (length (filter (\<lambda>d. d \<noteq> NAT66_IN2OUT_NEXT_DROP)
                (nat66_in2out_dispositions e (st\<lparr>next_index := cached, pkts_processed := 0\<rparr>) frame)))))
      \<and> (\<exists>cs. calls (fst (nat66_in2out_node e cached st frame)) =
                calls st @ cs @
                [Vlib_node_increment_counter (in2out_node_index e) NAT66_IN2OUT_ERROR_IN2OUT_PACKETS
                   (of_nat (length (filter (\<lambda>d. d \<noteq> NAT66_IN2OUT_NEXT_DROP)
                      (nat66_in2out_dispositions e (st\<lparr>next_index := cached, pkts_processed := 0\<rparr>) frame))))]
              \<and> (\<forall>c \<in> set cs. \<forall>a b n. c \<noteq> Vlib_node_increment_counter a b n)))
   \<and> (packet_parse e (buffers st bi0) = Some (p, off, fr)
        \<and> packet_not_translate e (buffers st bi0) = 0
        \<and> packet_mapping e (buffers st bi0) = Some (idx, sm0) \<longrightarrow>
      session_counters (fst (nat66_in2out_body e st bi0)) =
        (session_counters st)(thread_index e :=
           (session_counters st (thread_index e))(idx :=
              (fst (session_counters st (thread_index e) idx) + 1,
               snd (session_counters st (thread_index e) idx) +
                 vlib_buffer_length_in_chain e (buffers (fst (nat66_in2out_body e st bi0)) bi0)))))"
proof -
  let ?st0 = "st\<lparr>next_index := cached, pkts_processed := 0\<rparr>"
  let ?n = "length (filter (\<lambda>d. d \<noteq> NAT66_IN2OUT_NEXT_DROP) (nat66_in2out_dispositions e ?st0 frame))"
  have batch: "node_counters (fst (nat66_in2out_node e cached st frame)) =
        (node_counters st)(in2out_node_index e :=
           (node_counters st (in2out_node_index e))(NAT66_IN2OUT_ERROR_IN2OUT_PACKETS :=
              node_counters st (in2out_node_index e) NAT66_IN2OUT_ERROR_IN2OUT_PACKETS + of_nat ?n))
      \<and> (\<exists>cs. calls (fst (nat66_in2out_node e cached st frame)) =
                calls st @ cs @
                [Vlib_node_increment_counter (in2out_node_index e) NAT66_IN2OUT_ERROR_IN2OUT_PACKETS (of_nat ?n)]
              \<and> (\<forall>c \<in> set cs. \<forall>a b n. c \<noteq> Vlib_node_increment_counter a b n))"
    if len: "length frame < 2 ^ 32"
  proof -
    have "?n \<le> length frame"
      using length_filter_le [of _ "nat66_in2out_dispositions e ?st0 frame"]
      by (simp add: dispositions_length)
    then have n: "?n < 2 ^ 32"
      using len by simp
    have pk: "pkts_processed (nat66_in2out_loop e ?st0 frame) = of_nat ?n"
      by (simp add: loop_pkts_processed)
    have inc: "(ucast (pkts_processed (nat66_in2out_loop e ?st0 frame)) :: u64) = of_nat ?n"
      unfolding pk by (rule ucast_of_nat_u32_u64 [OF n])
    obtain cs where cs: "calls (nat66_in2out_loop e ?st0 frame) = calls ?st0 @ cs"
      "\<forall>c \<in> set cs. \<forall>a b n. c \<noteq> Vlib_node_increment_counter a b n"
      using loop_calls by blast
    have c: "calls (fst (nat66_in2out_node e cached st frame)) =
               calls st @ cs @
               [Vlib_node_increment_counter (in2out_node_index e) NAT66_IN2OUT_ERROR_IN2OUT_PACKETS (of_nat ?n)]"
      by (simp add: nat66_in2out_node_def Let_def inc cs(1))
    have "node_counters (fst (nat66_in2out_node e cached st frame)) =
        (node_counters st)(in2out_node_index e :=
           (node_counters st (in2out_node_index e))(NAT66_IN2OUT_ERROR_IN2OUT_PACKETS :=
              node_counters st (in2out_node_index e) NAT66_IN2OUT_ERROR_IN2OUT_PACKETS + of_nat ?n))"
      by (simp add: nat66_in2out_node_def Let_def inc loop_node_counters vlib_node_increment_counter_def)
    with c cs(2) show ?thesis by blast
  qed
  have packet: "session_counters (fst (nat66_in2out_body e st bi0)) =
        (session_counters st)(thread_index e :=
           (session_counters st (thread_index e))(idx :=
              (fst (session_counters st (thread_index e) idx) + 1,
               snd (session_counters st (thread_index e) idx) +
                 vlib_buffer_length_in_chain e (buffers (fst (nat66_in2out_body e st bi0)) bi0))))"
    if "packet_parse e (buffers st bi0) = Some (p, off, fr)"
      and "packet_not_translate e (buffers st bi0) = 0"
      and "packet_mapping e (buffers st bi0) = Some (idx, sm0)"
    using packet_translated [OF that]
    by (simp add: body_session_counters body_buffers vlib_increment_combined_counter_def)
  from batch packet show ?thesis by blast
qed




theorem nat66_in2out_counters_witness:
  "length [2, 3 :: u32] < 2 ^ 32
   \<and> node_counters (fst (nat66_in2out_node example_env NAT66_IN2OUT_NEXT_IP6_LOOKUP
        (example_state example_buffers) [2, 3])) 9 NAT66_IN2OUT_ERROR_IN2OUT_PACKETS = 1
   \<and> packet_parse example_env (buffers (example_state example_buffers) 1) = Some (17, 40, 0)
   \<and> packet_not_translate example_env (buffers (example_state example_buffers) 1) = 0
   \<and> packet_mapping example_env (buffers (example_state example_buffers) 1) =
        Some (4, \<lparr>l_addr = example_src, e_addr = example_e_addr, fib_index = 0\<rparr>)
   \<and> session_counters (fst (nat66_in2out_body example_env (example_state example_buffers) 1)) 2 4 = (1, 50)"
proof -
  have len: "length [2, 3 :: u32] < 2 ^ 32"
    by simp
  have h1: "packet_parse example_env (buffers (example_state example_buffers) 1) = Some (17, 40, 0)"
    by (simp add: example_packet_simps)
  have h2: "packet_not_translate example_env (buffers (example_state example_buffers) 1) = 0"
    by (simp add: example_packet_simps)
  have h3: "packet_mapping example_env (buffers (example_state example_buffers) 1) =
        Some (4, \<lparr>l_addr = example_src, e_addr = example_e_addr, fib_index = 0\<rparr>)"
    by (simp add: example_packet_simps)
  have e: "in2out_node_index example_env = 9" "thread_index example_env = 2"
    by (simp_all add: example_env_def)
  have s: "node_counters (example_state example_buffers) = (\<lambda>node_index counter_index. 0)"
    "session_counters (example_state example_buffers) = (\<lambda>thread index. (0, 0))"
    by (simp_all add: example_state_def)
  have l: "vlib_buffer_length_in_chain example_env
             (buffers (fst (nat66_in2out_body example_env (example_state example_buffers) 1)) 1) = 50"
    by (simp add: body_buffers packet_translated(2) [OF h1 h2 h3])
       (simp add: example_packet_simps)
  note t = nat66_in2out_counters [where frame = "[2, 3]" and e = example_env
      and cached = NAT66_IN2OUT_NEXT_IP6_LOOKUP and st = "example_state example_buffers"
      and ?bi0.0 = 1 and p = 17 and off = 40 and fr = 0 and idx = 4
      and ?sm0.0 = "\<lparr>l_addr = example_src, e_addr = example_e_addr, fib_index = 0\<rparr>"]
  from t len have "node_counters (fst (nat66_in2out_node example_env NAT66_IN2OUT_NEXT_IP6_LOOKUP
        (example_state example_buffers) [2, 3])) 9 NAT66_IN2OUT_ERROR_IN2OUT_PACKETS = 1"
    unfolding example_dispositions e s by simp
  moreover from t h1 h2 h3
  have "session_counters (fst (nat66_in2out_body example_env (example_state example_buffers) 1)) 2 4 = (1, 50)"
    unfolding e s l by simp
  ultimately show ?thesis
    using len h1 h2 h3 by blast
qed

text \<open>
  C8: the checksum adjuster gives back the checksum when the old and the new address
  are equal, for every 16-bit checksum and every address; and the loop body leaves
  every buffer as it is, so both the address field and the checksum field, when the
  packet is translated with a mapping whose outside address is the source address the
  packet already has.
\<close>

theorem nat66_csum_adjust_same_address:
  "nat66_csum_adjust c a a = c
   \<and> ip_csum_fold (ip_csum_add_even (ip_csum_add_even
         (ip_csum_sub_even (ip_csum_sub_even (ucast c) (fst a)) (snd a)) (fst a)) (snd a)) = c
   \<and> (packet_parse e (buffers st bi0) = Some (p, off, fr)
        \<and> packet_not_translate e (buffers st bi0) = 0
        \<and> packet_mapping e (buffers st bi0) = Some (idx, sm0)
        \<and> e_addr sm0 = load_address (data (buffers st bi0)) src_address_offset \<longrightarrow>
      buffers (fst (nat66_in2out_body e st bi0)) = buffers st)"
proof -
  have 1: "nat66_csum_adjust c a a = c"
    by (rule nat66_csum_adjust_same)
  then have 2: "ip_csum_fold (ip_csum_add_even (ip_csum_add_even
         (ip_csum_sub_even (ip_csum_sub_even (ucast c) (fst a)) (snd a)) (fst a)) (snd a)) = c"
    by (simp add: nat66_csum_adjust_def Let_def)
  have 3: "buffers (fst (nat66_in2out_body e st bi0)) = buffers st"
    if "packet_parse e (buffers st bi0) = Some (p, off, fr)"
      and "packet_not_translate e (buffers st bi0) = 0"
      and "packet_mapping e (buffers st bi0) = Some (idx, sm0)"
      and "e_addr sm0 = load_address (data (buffers st bi0)) src_address_offset"
    using packet_translated(2) [OF that(1-3)] rewrite_same [OF that(4)]
    by (simp add: body_buffers)
  from 1 2 3 show ?thesis by blast
qed

theorem nat66_csum_adjust_same_address_witness:
  "packet_parse example_env_same (buffers (example_state (example_buffers_of example_udp_valid)) 1) = Some (17, 40, 0)
   \<and> packet_not_translate example_env_same (buffers (example_state (example_buffers_of example_udp_valid)) 1) = 0
   \<and> packet_mapping example_env_same (buffers (example_state (example_buffers_of example_udp_valid)) 1) = Some (4, example_mapping_same)
   \<and> e_addr example_mapping_same = load_address (data (buffers (example_state (example_buffers_of example_udp_valid)) 1)) src_address_offset
   \<and> nat66_csum_adjust 0x435a example_src example_src = 0x435a
   \<and> buffers (fst (nat66_in2out_body example_env_same (example_state (example_buffers_of example_udp_valid)) 1)) = buffers (example_state (example_buffers_of example_udp_valid))"
proof -
  have h: "packet_parse example_env_same (buffers (example_state (example_buffers_of example_udp_valid)) 1) = Some (17, 40, 0)"
    "packet_not_translate example_env_same (buffers (example_state (example_buffers_of example_udp_valid)) 1) = 0"
    "packet_mapping example_env_same (buffers (example_state (example_buffers_of example_udp_valid)) 1) = Some (4, example_mapping_same)"
    "e_addr example_mapping_same = load_address (data (buffers (example_state (example_buffers_of example_udp_valid)) 1)) src_address_offset"
    by (simp_all add: example_env_same_def example_packet_simps)
  from nat66_csum_adjust_same_address [where c = "0x435a" and a = example_src
      and e = example_env_same and st = "(example_state (example_buffers_of example_udp_valid))" and ?bi0.0 = 1
      and p = 17 and off = 40 and fr = 0 and idx = 4 and ?sm0.0 = example_mapping_same] h
  show ?thesis by blast
qed




end
